theory Spec2Isabelle
  imports Main "HOL-Library.AList"
begin

text \<open>
  The virtual-DOM utility of \<^verbatim>\<open>src/core/vdom.js\<close>: the node constructor, mount
  (\<^verbatim>\<open>renderVDomToDom\<close>), re-render (\<^verbatim>\<open>reRenderElement\<close>), diff and patch
  (\<^verbatim>\<open>diffAndUpdate\<close>) and the attribute diff (\<^verbatim>\<open>updateDomAttributes\<close>), as functions from
  a store of live nodes to the outcome of the call: the value returned or the error thrown,
  and the store left behind.
\<close>

section \<open>Virtual nodes\<close>

text \<open>
  A props object is modelled by its own enumerable string properties, in the order in which
  \<^verbatim>\<open>Object.keys\<close> and \<^verbatim>\<open>Object.entries\<close> enumerate them. Attribute values are strings.
  A JavaScript object has every key at most once: \<open>distinct (map fst ps)\<close>.
\<close>

type_synonym attrs = "(string \<times> string) list"

text \<open>
  The values that the functions of \<^verbatim>\<open>src/core/vdom.js\<close> receive as a virtual node:
  \<^verbatim>\<open>null\<close>, \<^verbatim>\<open>undefined\<close>, a primitive string, a \<^verbatim>\<open>String\<close> wrapper object, or
  an object \<^verbatim>\<open>{ type, props, children }\<close>. Objects carry an identity (\<open>oid\<close>), which is what
  \<^verbatim>\<open>!==\<close> compares; primitive strings are compared by value. The \<open>props\<close> field is
  \<open>None\<close> when it holds \<^verbatim>\<open>undefined\<close>. The \<open>children\<close> field is an array of virtual nodes
  or a string, as the documentation comment of \<^verbatim>\<open>createVDomNode\<close> allows.
\<close>

datatype vnode =
    VNull
  | VUndefined
  | VText string
  | VTextObj nat string
  | VElem (oid: nat) (type: string) (props: "attrs option") (children: vchildren)
and vchildren =
    ChildArray "vnode list"
  | ChildString string

text \<open>
  \<^verbatim>\<open>function createVDomNode(type, props, children) { return { type, props, children }; }\<close>

  The identity of the object that the literal allocates is the first argument of the model.
  An argument that the caller leaves out is \<^verbatim>\<open>undefined\<close>: \<open>None\<close> for \<open>props\<close>.
\<close>

definition createVDomNode :: "nat \<Rightarrow> string \<Rightarrow> attrs option \<Rightarrow> vchildren \<Rightarrow> vnode" where
  "createVDomNode new_oid ty ps ch = VElem new_oid ty ps ch"

text \<open>
  \<^verbatim>\<open>function isTextNode(vNode) { return typeof vNode === "string" || vNode instanceof String; }\<close>
\<close>

fun isTextNode :: "vnode \<Rightarrow> bool" where
  "isTextNode (VText x) = True"
| "isTextNode (VTextObj i x) = True"
| "isTextNode v = False"

text \<open>The strict equality \<^verbatim>\<open>===\<close> of two such values, and its negation \<^verbatim>\<open>!==\<close>.\<close>

fun strict_eq :: "vnode \<Rightarrow> vnode \<Rightarrow> bool" where
  "strict_eq VNull VNull = True"
| "strict_eq VUndefined VUndefined = True"
| "strict_eq (VText a) (VText b) = (a = b)"
| "strict_eq (VTextObj i a) (VTextObj j b) = (i = j)"
| "strict_eq (VElem i t p c) (VElem j t' p' c') = (i = j)"
| "strict_eq v w = False"

definition strict_neq :: "vnode \<Rightarrow> vnode \<Rightarrow> bool" where
  "strict_neq v w = (\<not> strict_eq v w)"

text \<open>
  The string that \<^verbatim>\<open>document.createTextNode(v)\<close> stores: its argument converted to a string.
\<close>

fun to_string :: "vnode \<Rightarrow> string" where
  "to_string VNull = ''null''"
| "to_string VUndefined = ''undefined''"
| "to_string (VText x) = x"
| "to_string (VTextObj i x) = x"
| "to_string (VElem i t p c) = ''[object Object]''"

text \<open>
  \<^verbatim>\<open>previousVNode.children[index]\<close>: an index outside the array reads \<^verbatim>\<open>undefined\<close>; indexing
  a string reads the one-character string at the index.
\<close>

fun child_at :: "vchildren \<Rightarrow> nat \<Rightarrow> vnode" where
  "child_at (ChildArray cs) i = (if i < length cs then cs ! i else VUndefined)"
| "child_at (ChildString x) i = (if i < length x then VText [x ! i] else VUndefined)"

subsection \<open>Property lookup on a props object\<close>

text \<open>
  A props object written as an object literal has \<^verbatim>\<open>Object.prototype\<close> as its prototype.
  The operator \<^verbatim>\<open>in\<close> and the property read \<^verbatim>\<open>obj[name]\<close> follow the prototype chain, so
  they also find the properties that every such object inherits.
\<close>

definition object_prototype_keys :: "string list" where
  "object_prototype_keys =
     [''constructor'', ''hasOwnProperty'', ''isPrototypeOf'', ''propertyIsEnumerable'',
      ''toLocaleString'', ''toString'', ''valueOf'', ''__proto__'',
      ''__defineGetter__'', ''__defineSetter__'', ''__lookupGetter__'', ''__lookupSetter__'']"

datatype jsprop = JString string | JInherited | JUndefined

definition js_in :: "string \<Rightarrow> attrs \<Rightarrow> bool" where
  "js_in name obj = (name \<in> set (map fst obj) \<or> name \<in> set object_prototype_keys)"

definition js_get :: "attrs \<Rightarrow> string \<Rightarrow> jsprop" where
  "js_get obj name =
     (case map_of obj name of
        Some v \<Rightarrow> JString v
      | None \<Rightarrow> if name \<in> set object_prototype_keys then JInherited else JUndefined)"

section \<open>The live display tree\<close>

text \<open>
  Modelled from the spec: the display tree of the host (\<^verbatim>\<open>document.createElement\<close>,
  \<^verbatim>\<open>document.createTextNode\<close>, \<^verbatim>\<open>setAttribute\<close>, \<^verbatim>\<open>removeAttribute\<close>, \<^verbatim>\<open>appendChild\<close>,
  \<^verbatim>\<open>replaceChild\<close>, \<^verbatim>\<open>removeChild\<close>, \<^verbatim>\<open>innerHTML\<close>, \<^verbatim>\<open>firstChild\<close>) is no code of the
  repository. It is the capability set of the spec: create an element of a tag name, create
  a text node of a value, set and remove a named attribute of an element, append a child,
  replace a child, remove children, read the first child; its errors are those of the DOM.

  The display tree is a store of live nodes. A live node is addressed by its index in the
  store, and that index is its identity. A text node carries its value; an element carries
  its tag name, its attributes in the order of the host's attribute list, and the addresses
  of its child nodes in order. The host stores tag names and attribute names as they are
  given. A node deleted from a child list stays in the store, no longer referred to.
\<close>

datatype dnode = Text string | Element string attrs "nat list"

type_synonym dom = "dnode list"

datatype error = TypeError | ReferenceError | RangeError | HierarchyRequestError | NotFoundError

text \<open>
  A call returns a value and the store it leaves, or throws an error and leaves a store.
  A value that is a live node or \<^verbatim>\<open>null\<close>/\<^verbatim>\<open>undefined\<close> is a \<open>nat option\<close>.
\<close>

datatype 'a outcome = Returned 'a dom | Thrown error dom

fun final_dom :: "'a outcome \<Rightarrow> dom" where
  "final_dom (Returned x s) = s"
| "final_dom (Thrown e s) = s"

text \<open>
  An address that the store does not hold stands for an object that is not a live node: its
  \<^verbatim>\<open>firstChild\<close> is \<^verbatim>\<open>undefined\<close>, it has none of the node methods.
\<close>

definition node_at :: "dom \<Rightarrow> nat \<Rightarrow> dnode option" where
  "node_at s r = (if r < length s then Some (s ! r) else None)"

definition createTextNode :: "string \<Rightarrow> dom \<Rightarrow> nat \<times> dom" where
  "createTextNode x s = (length s, s @ [Text x])"

definition createElement :: "string \<Rightarrow> dom \<Rightarrow> nat \<times> dom" where
  "createElement tag s = (length s, s @ [Element tag [] []])"

definition firstChild :: "nat \<Rightarrow> dom \<Rightarrow> nat option" where
  "firstChild r s =
     (case node_at s r of
        Some (Element tag as (c # cs)) \<Rightarrow> Some c
      | _ \<Rightarrow> None)"

text \<open>
  \<^verbatim>\<open>parent.appendChild(node)\<close>, for a \<open>node\<close> that has no parent (the only use the source
  makes of it). A text node accepts no child.
\<close>

definition appendChild :: "nat \<Rightarrow> nat \<Rightarrow> dom \<Rightarrow> unit outcome" where
  "appendChild parent node s =
     (case node_at s parent of
        None \<Rightarrow> Thrown TypeError s
      | Some (Text x) \<Rightarrow> Thrown HierarchyRequestError s
      | Some (Element tag as cs) \<Rightarrow> Returned () (s[parent := Element tag as (cs @ [node])]))"

text \<open>
  \<^verbatim>\<open>parent.replaceChild(node, child)\<close>: both arguments must be nodes, \<open>child\<close> must be a
  child of \<open>parent\<close>, and \<open>node\<close> takes its place.
\<close>

fun replace_first :: "nat \<Rightarrow> nat \<Rightarrow> nat list \<Rightarrow> nat list" where
  "replace_first old new [] = []"
| "replace_first old new (c # cs) = (if c = old then new # cs else c # replace_first old new cs)"

definition replaceChild :: "nat \<Rightarrow> nat option \<Rightarrow> nat option \<Rightarrow> dom \<Rightarrow> unit outcome" where
  "replaceChild parent node child s =
     (case node_at s parent of
        None \<Rightarrow> Thrown TypeError s
      | Some p \<Rightarrow>
          (case node of
             None \<Rightarrow> Thrown TypeError s
           | Some new \<Rightarrow>
               (case child of
                  None \<Rightarrow> Thrown TypeError s
                | Some old \<Rightarrow>
                    (case p of
                       Text x \<Rightarrow> Thrown HierarchyRequestError s
                     | Element tag as cs \<Rightarrow>
                         if old \<in> set cs
                         then Returned () (s[parent := Element tag as (replace_first old new cs)])
                         else Thrown NotFoundError s))))"

definition removeChild :: "nat \<Rightarrow> nat \<Rightarrow> dom \<Rightarrow> unit outcome" where
  "removeChild parent child s =
     (case node_at s parent of
        None \<Rightarrow> Thrown TypeError s
      | Some (Text x) \<Rightarrow> Thrown NotFoundError s
      | Some (Element tag as cs) \<Rightarrow>
          if child \<in> set cs
          then Returned () (s[parent := Element tag as (remove1 child cs)])
          else Thrown NotFoundError s)"

text \<open>
  \<^verbatim>\<open>parent.innerHTML = ""\<close>: an element loses all its children; on \<^verbatim>\<open>null\<close> the
  assignment throws; on any other object it sets an ordinary property, which the display tree
  does not see.
\<close>

definition clear_innerHTML :: "nat option \<Rightarrow> dom \<Rightarrow> unit outcome" where
  "clear_innerHTML parent s =
     (case parent of
        None \<Rightarrow> Thrown TypeError s
      | Some p \<Rightarrow>
          (case node_at s p of
             Some (Element tag as cs) \<Rightarrow> Returned () (s[p := Element tag as []])
           | _ \<Rightarrow> Returned () s))"

text \<open>
  \<^verbatim>\<open>el.setAttribute(name, value)\<close> changes the value of an attribute that the element has, in
  place, and adds a new attribute at the end; \<^verbatim>\<open>el.removeAttribute(name)\<close> deletes it. Only
  elements have these methods.
\<close>

definition setAttribute :: "nat option \<Rightarrow> string \<Rightarrow> string \<Rightarrow> dom \<Rightarrow> unit outcome" where
  "setAttribute el name v s =
     (case el of
        None \<Rightarrow> Thrown TypeError s
      | Some r \<Rightarrow>
          (case node_at s r of
             Some (Element tag as cs) \<Rightarrow> Returned () (s[r := Element tag (AList.update name v as) cs])
           | _ \<Rightarrow> Thrown TypeError s))"

definition removeAttribute :: "nat option \<Rightarrow> string \<Rightarrow> dom \<Rightarrow> unit outcome" where
  "removeAttribute el name s =
     (case el of
        None \<Rightarrow> Thrown TypeError s
      | Some r \<Rightarrow>
          (case node_at s r of
             Some (Element tag as cs) \<Rightarrow> Returned () (s[r := Element tag (AList.delete name as) cs])
           | _ \<Rightarrow> Thrown TypeError s))"

section \<open>The attribute diff\<close>

text \<open>
  \<^verbatim>\<open>Object.keys(oldProps).forEach((propName) => {
    if (!(propName in newProps)) { domElement.removeAttribute(propName); } });\<close>

  The operator \<^verbatim>\<open>in\<close> throws when its right operand is \<^verbatim>\<open>undefined\<close>.
\<close>

fun remove_forEach :: "nat option \<Rightarrow> attrs option \<Rightarrow> string list \<Rightarrow> dom \<Rightarrow> unit outcome" where
  "remove_forEach domElement newProps [] s = Returned () s"
| "remove_forEach domElement newProps (propName # rest) s =
     (case newProps of
        None \<Rightarrow> Thrown TypeError s
      | Some new \<Rightarrow>
          if \<not> js_in propName new
          then (case removeAttribute domElement propName s of
                  Thrown e s1 \<Rightarrow> Thrown e s1
                | Returned u s1 \<Rightarrow> remove_forEach domElement newProps rest s1)
          else remove_forEach domElement newProps rest s)"

text \<open>
  \<^verbatim>\<open>Object.entries(newProps).forEach(([propName, propValue]) => {
    if (oldProps[propName] !== propValue) { domElement.setAttribute(propName, propValue); } });\<close>
\<close>

fun set_forEach :: "nat option \<Rightarrow> attrs \<Rightarrow> attrs \<Rightarrow> dom \<Rightarrow> unit outcome" where
  "set_forEach domElement old [] s = Returned () s"
| "set_forEach domElement old ((propName, propValue) # rest) s =
     (if js_get old propName \<noteq> JString propValue
      then (case setAttribute domElement propName propValue s of
              Thrown e s1 \<Rightarrow> Thrown e s1
            | Returned u s1 \<Rightarrow> set_forEach domElement old rest s1)
      else set_forEach domElement old rest s)"

text \<open>
  \<^verbatim>\<open>function updateDomAttributes(domElement, oldProps, newProps)\<close>. \<^verbatim>\<open>Object.keys\<close> and
  \<^verbatim>\<open>Object.entries\<close> throw on \<^verbatim>\<open>undefined\<close>.
\<close>

definition updateDomAttributes ::
    "nat option \<Rightarrow> attrs option \<Rightarrow> attrs option \<Rightarrow> dom \<Rightarrow> unit outcome" where
  "updateDomAttributes domElement oldProps newProps s =
     (case oldProps of
        None \<Rightarrow> Thrown TypeError s
      | Some old \<Rightarrow>
          (case remove_forEach domElement newProps (map fst old) s of
             Thrown e s1 \<Rightarrow> Thrown e s1
           | Returned u s1 \<Rightarrow>
               (case newProps of
                  None \<Rightarrow> Thrown TypeError s1
                | Some new \<Rightarrow> set_forEach domElement old new s1)))"

section \<open>Mount\<close>

text \<open>
  \<^verbatim>\<open>container && container.appendChild(domElement);\<close> ends \<^verbatim>\<open>renderVDomToDom\<close>, which has
  no \<^verbatim>\<open>return\<close> statement: a call that completes evaluates to \<^verbatim>\<open>undefined\<close>.
\<close>

definition append_to_container :: "nat option \<Rightarrow> nat \<Rightarrow> dom \<Rightarrow> nat option outcome" where
  "append_to_container container domElement s =
     (case container of
        None \<Rightarrow> Returned None s
      | Some c \<Rightarrow>
          (case appendChild c domElement s of
             Thrown e s1 \<Rightarrow> Thrown e s1
           | Returned u s1 \<Rightarrow> Returned None s1))"

text \<open>
  \<^verbatim>\<open>function renderVDomToDom(vNode, container)\<close>; \<open>render_forEach\<close> is
  \<^verbatim>\<open>vNode.children.forEach((child) => renderVDomToDom(child, domElement))\<close>. Reading
  \<^verbatim>\<open>.type\<close> of \<^verbatim>\<open>null\<close> or \<^verbatim>\<open>undefined\<close> throws, and a string has no \<^verbatim>\<open>forEach\<close>.
\<close>

fun renderVDomToDom :: "vnode \<Rightarrow> nat option \<Rightarrow> dom \<Rightarrow> nat option outcome"
  and render_forEach :: "vnode list \<Rightarrow> nat \<Rightarrow> dom \<Rightarrow> unit outcome" where
  "renderVDomToDom (VText x) container s =
     (case createTextNode x s of (domElement, s1) \<Rightarrow> append_to_container container domElement s1)"
| "renderVDomToDom (VTextObj i x) container s =
     (case createTextNode x s of (domElement, s1) \<Rightarrow> append_to_container container domElement s1)"
| "renderVDomToDom VNull container s = Thrown TypeError s"
| "renderVDomToDom VUndefined container s = Thrown TypeError s"
| "renderVDomToDom (VElem i ty ps (ChildString x)) container s =
     (case createElement ty s of (domElement, s1) \<Rightarrow>
        (case updateDomAttributes (Some domElement) (Some []) ps s1 of
           Thrown e s2 \<Rightarrow> Thrown e s2
         | Returned u s2 \<Rightarrow> Thrown TypeError s2))"
| "renderVDomToDom (VElem i ty ps (ChildArray cs)) container s =
     (case createElement ty s of (domElement, s1) \<Rightarrow>
        (case updateDomAttributes (Some domElement) (Some []) ps s1 of
           Thrown e s2 \<Rightarrow> Thrown e s2
         | Returned u s2 \<Rightarrow>
             (case render_forEach cs domElement s2 of
                Thrown e s3 \<Rightarrow> Thrown e s3
              | Returned u' s3 \<Rightarrow> append_to_container container domElement s3)))"
| "render_forEach [] domElement s = Returned () s"
| "render_forEach (child # rest) domElement s =
     (case renderVDomToDom child (Some domElement) s of
        Thrown e s1 \<Rightarrow> Thrown e s1
      | Returned u s1 \<Rightarrow> render_forEach rest domElement s1)"

section \<open>Re-render\<close>

text \<open>
  \<^verbatim>\<open>while (parentDomElement && parentDomElement.firstChild) {
    parentDomElement.removeChild(parentDomElement.firstChild); }\<close>
\<close>

definition child_count :: "nat option \<Rightarrow> dom \<Rightarrow> nat" where
  "child_count parent s =
     (case parent of
        None \<Rightarrow> 0
      | Some p \<Rightarrow> (case node_at s p of Some (Element tag as cs) \<Rightarrow> length cs | _ \<Rightarrow> 0))"

function remove_children_while :: "nat option \<Rightarrow> dom \<Rightarrow> unit outcome" where
  "remove_children_while parentDomElement s =
     (case parentDomElement of
        None \<Rightarrow> Returned () s
      | Some p \<Rightarrow>
          (case firstChild p s of
             None \<Rightarrow> Returned () s
           | Some c \<Rightarrow>
               (case removeChild p c s of
                  Thrown e s1 \<Rightarrow> Thrown e s1
                | Returned u s1 \<Rightarrow> remove_children_while parentDomElement s1)))"
  by pat_completeness auto
termination
  by (relation "measure (\<lambda>(parent, s). child_count parent s)")
    (auto simp: firstChild_def removeChild_def child_count_def node_at_def
      split: option.splits dnode.splits list.splits if_splits)

text \<open>\<^verbatim>\<open>function reRenderElement(vNode, parentDomElement)\<close>\<close>

definition reRenderElement :: "vnode \<Rightarrow> nat option \<Rightarrow> dom \<Rightarrow> unit outcome" where
  "reRenderElement vNode parentDomElement s =
     (case remove_children_while parentDomElement s of
        Thrown e s1 \<Rightarrow> Thrown e s1
      | Returned u s1 \<Rightarrow>
          (case renderVDomToDom vNode parentDomElement s1 of
             Thrown e s2 \<Rightarrow> Thrown e s2
           | Returned r s2 \<Rightarrow> Returned () s2))"

section \<open>Diff and patch\<close>

text \<open>
  \<^verbatim>\<open>function getDomElementFromVNode(vNode, parentDomElement) { return parentDomElement.firstChild; }\<close>
\<close>

definition getDomElementFromVNode :: "vnode \<Rightarrow> nat option \<Rightarrow> dom \<Rightarrow> nat option outcome" where
  "getDomElementFromVNode vNode parentDomElement s =
     (case parentDomElement of
        None \<Rightarrow> Thrown TypeError s
      | Some p \<Rightarrow> Returned (firstChild p s) s)"

text \<open>
  \<^verbatim>\<open>parentDomElement.replaceChild(newDomElement, parentDomElement.firstChild)\<close>
\<close>

definition replace_firstChild :: "nat option \<Rightarrow> nat option \<Rightarrow> dom \<Rightarrow> unit outcome" where
  "replace_firstChild parentDomElement newDomElement s =
     (case parentDomElement of
        None \<Rightarrow> Thrown TypeError s
      | Some p \<Rightarrow> replaceChild p newDomElement (firstChild p s) s)"

text \<open>
  The type of a function that can stand for the identifier \<^verbatim>\<open>updateAttributes\<close>.
\<close>

type_synonym attribute_updater = "nat option \<Rightarrow> attrs option \<Rightarrow> attrs option \<Rightarrow> dom \<Rightarrow> unit outcome"

text \<open>
  \<^verbatim>\<open>function diffAndUpdate(previousVNode, currentVNode, parentDomElement)\<close>; \<open>diff_forEach\<close> is
  \<^verbatim>\<open>currentVNode.children.forEach((child, index) => {
    if (child !== previousVNode.children[index]) {
      diffAndUpdate(previousVNode.children[index], child, domElement); } })\<close>.

  The body calls \<^verbatim>\<open>updateAttributes\<close>, an identifier that the module neither declares nor
  imports (the function it declares is \<^verbatim>\<open>updateDomAttributes\<close>). What the call does depends on
  the global environment, the first argument of the model: \<open>None\<close> when the identifier is
  unbound, as it is in the module as it stands, where evaluating the call throws a
  \<^verbatim>\<open>ReferenceError\<close> before any argument is evaluated; \<open>Some f\<close> when the environment binds it
  to \<open>f\<close>.
\<close>

fun diffAndUpdate ::
    "attribute_updater option \<Rightarrow> vnode \<Rightarrow> vnode \<Rightarrow> nat option \<Rightarrow> dom \<Rightarrow> unit outcome"
  and diff_forEach ::
    "attribute_updater option \<Rightarrow> vchildren \<Rightarrow> vnode list \<Rightarrow> nat \<Rightarrow> nat option \<Rightarrow> dom \<Rightarrow> unit outcome"
  where
  "diffAndUpdate updateAttributes previousVNode currentVNode parentDomElement s =
     (if currentVNode = VNull then clear_innerHTML parentDomElement s
      else if isTextNode previousVNode \<or> isTextNode currentVNode then
        (if strict_neq previousVNode currentVNode
         then (case createTextNode (to_string currentVNode) s of (newDomElement, s1) \<Rightarrow>
                 replace_firstChild parentDomElement (Some newDomElement) s1)
         else Returned () s)
      else
        (case previousVNode of
           VElem i ptype pprops pchildren \<Rightarrow>
             (case currentVNode of
                VElem j ctype cprops cchildren \<Rightarrow>
                  if ptype \<noteq> ctype
                  then (case renderVDomToDom currentVNode None s of
                          Thrown e s1 \<Rightarrow> Thrown e s1
                        | Returned newDomElement s1 \<Rightarrow>
                            replace_firstChild parentDomElement newDomElement s1)
                  else
                    (case getDomElementFromVNode previousVNode parentDomElement s of
                       Thrown e s1 \<Rightarrow> Thrown e s1
                     | Returned domElement s1 \<Rightarrow>
                         (case updateAttributes of
                            None \<Rightarrow> Thrown ReferenceError s1
                          | Some f \<Rightarrow>
                              (case f domElement pprops cprops s1 of
                                 Thrown e s2 \<Rightarrow> Thrown e s2
                               | Returned u s2 \<Rightarrow>
                                   (case cchildren of
                                      ChildString x \<Rightarrow> Thrown TypeError s2
                                    | ChildArray cs \<Rightarrow>
                                        diff_forEach updateAttributes pchildren cs 0 domElement s2))))
              | _ \<Rightarrow> Thrown TypeError s)
         | _ \<Rightarrow> Thrown TypeError s))"
| "diff_forEach updateAttributes pchildren [] index domElement s = Returned () s"
| "diff_forEach updateAttributes pchildren (child # rest) index domElement s =
     (if strict_neq child (child_at pchildren index)
      then (case diffAndUpdate updateAttributes (child_at pchildren index) child domElement s of
              Thrown e s1 \<Rightarrow> Thrown e s1
            | Returned u s1 \<Rightarrow> diff_forEach updateAttributes pchildren rest (Suc index) domElement s1)
      else diff_forEach updateAttributes pchildren rest (Suc index) domElement s)"

declare diffAndUpdate.simps(1) [simp del]

declare remove_children_while.simps [simp del]

section \<open>The operations over a heap of virtual objects\<close>

text \<open>
  The functions of the sections above take a virtual tree as a value. Here the same functions
  of \<^verbatim>\<open>src/core/vdom.js\<close> take it as the program does, by reference: the objects
  \<^verbatim>\<open>{ type, props, children }\<close>, the props objects and the arrays of children live in a heap,
  a virtual node is a value that may refer to an object of the heap, and every read of a field
  looks the object up in the heap as it is at that moment. The names carry the suffix
  \<open>_h\<close>.

  A value: \<^verbatim>\<open>null\<close>, \<^verbatim>\<open>undefined\<close>, a primitive string, a \<^verbatim>\<open>String\<close> wrapper object (its
  identity and its value, which never changes), or a reference to a node object.
\<close>

datatype jsval = JNull | JUndef | JText string | JTextObj nat string | JRef nat

text \<open>
  A node object holds its \<open>type\<close>, its \<open>props\<close> field (\<^verbatim>\<open>undefined\<close>, or a reference to a
  props object) and its \<open>children\<close> field (a reference to an array, or a string). The heap
  has the node objects, the props objects (each the list of its own properties) and the
  arrays, each kind addressed by the index in its list; the state of a run is the heap and
  the store of live nodes.
\<close>

datatype children_field = ChildrenArray nat | ChildrenString string

datatype node_object = NodeObject string "nat option" children_field

record js_state =
  node_objects :: "node_object list"
  props_objects :: "attrs list"
  array_objects :: "jsval list list"
  live_nodes :: dom

text \<open>
  A call returns a value and leaves a state, or throws an error and leaves a state.
\<close>

datatype 'a result = Done 'a js_state | Raised error js_state

fun final_state :: "'a result \<Rightarrow> js_state" where
  "final_state (Done x st) = st"
| "final_state (Raised e st) = st"

text \<open>
  Reading through a reference. A reference of JavaScript always denotes an object; where the
  heap holds no object at the address, the read gives \<open>None\<close> and the functions below throw a
  \<^verbatim>\<open>TypeError\<close>, as they do on \<^verbatim>\<open>null\<close> and \<^verbatim>\<open>undefined\<close>. \<open>element_at\<close> is the entry
  of an array at an index, \<open>None\<close> where the array has none.
\<close>

definition node_fields :: "js_state \<Rightarrow> jsval \<Rightarrow> node_object option" where
  "node_fields st v =
     (case v of
        JRef r \<Rightarrow> if r < length (node_objects st) then Some (node_objects st ! r) else None
      | _ \<Rightarrow> None)"

definition props_at :: "js_state \<Rightarrow> nat option \<Rightarrow> attrs option" where
  "props_at st p =
     (case p of
        None \<Rightarrow> None
      | Some r \<Rightarrow> if r < length (props_objects st) then Some (props_objects st ! r) else None)"

definition array_at :: "js_state \<Rightarrow> nat \<Rightarrow> jsval list option" where
  "array_at st a = (if a < length (array_objects st) then Some (array_objects st ! a) else None)"

definition element_at :: "js_state \<Rightarrow> nat \<Rightarrow> nat \<Rightarrow> jsval option" where
  "element_at st a i =
     (case array_at st a of
        Some vs \<Rightarrow> if i < length vs then Some (vs ! i) else None
      | None \<Rightarrow> None)"

text \<open>
  A call of the host works on the store of live nodes and leaves the heap alone: the host
  receives strings and live nodes only. \<open>new_props_object\<close> is the object literal \<^verbatim>\<open>{}\<close>,
  which allocates a props object without properties.
\<close>

definition host :: "(dom \<Rightarrow> 'a outcome) \<Rightarrow> js_state \<Rightarrow> 'a result" where
  "host call st =
     (case call (live_nodes st) of
        Returned x s \<Rightarrow> Done x (st\<lparr>live_nodes := s\<rparr>)
      | Thrown e s \<Rightarrow> Raised e (st\<lparr>live_nodes := s\<rparr>))"

definition host_create :: "(dom \<Rightarrow> nat \<times> dom) \<Rightarrow> js_state \<Rightarrow> nat \<times> js_state" where
  "host_create call st = (case call (live_nodes st) of (r, s) \<Rightarrow> (r, st\<lparr>live_nodes := s\<rparr>))"

definition new_props_object :: "js_state \<Rightarrow> nat \<times> js_state" where
  "new_props_object st =
     (length (props_objects st), st\<lparr>props_objects := props_objects st @ [[]]\<rparr>)"

text \<open>
  \<^verbatim>\<open>isTextNode\<close>, \<^verbatim>\<open>===\<close> and \<^verbatim>\<open>!==\<close>, and the conversion to a string of
  \<^verbatim>\<open>document.createTextNode\<close>, on these values: two references are equal when they are the
  same address.
\<close>

fun isTextNode_h :: "jsval \<Rightarrow> bool" where
  "isTextNode_h (JText x) = True"
| "isTextNode_h (JTextObj i x) = True"
| "isTextNode_h v = False"

fun strict_eq_h :: "jsval \<Rightarrow> jsval \<Rightarrow> bool" where
  "strict_eq_h JNull JNull = True"
| "strict_eq_h JUndef JUndef = True"
| "strict_eq_h (JText a) (JText b) = (a = b)"
| "strict_eq_h (JTextObj i a) (JTextObj j b) = (i = j)"
| "strict_eq_h (JRef r) (JRef r') = (r = r')"
| "strict_eq_h v w = False"

definition strict_neq_h :: "jsval \<Rightarrow> jsval \<Rightarrow> bool" where
  "strict_neq_h v w = (\<not> strict_eq_h v w)"

fun to_string_h :: "jsval \<Rightarrow> string" where
  "to_string_h JNull = ''null''"
| "to_string_h JUndef = ''undefined''"
| "to_string_h (JText x) = x"
| "to_string_h (JTextObj i x) = x"
| "to_string_h (JRef r) = ''[object Object]''"

text \<open>
  \<^verbatim>\<open>updateDomAttributes(domElement, oldProps, newProps)\<close>. \<^verbatim>\<open>Object.keys(oldProps)\<close> and
  \<^verbatim>\<open>Object.entries(newProps)\<close> read the object once and give the list that the loop runs
  over; \<^verbatim>\<open>propName in newProps\<close> and \<^verbatim>\<open>oldProps[propName]\<close> read the object in each round.
\<close>

fun remove_forEach_h :: "nat option \<Rightarrow> nat option \<Rightarrow> string list \<Rightarrow> js_state \<Rightarrow> unit result" where
  "remove_forEach_h domElement newProps [] st = Done () st"
| "remove_forEach_h domElement newProps (propName # rest) st =
     (case props_at st newProps of
        None \<Rightarrow> Raised TypeError st
      | Some new \<Rightarrow>
          if \<not> js_in propName new
          then (case host (removeAttribute domElement propName) st of
                  Raised e st1 \<Rightarrow> Raised e st1
                | Done u st1 \<Rightarrow> remove_forEach_h domElement newProps rest st1)
          else remove_forEach_h domElement newProps rest st)"

fun set_forEach_h :: "nat option \<Rightarrow> nat option \<Rightarrow> attrs \<Rightarrow> js_state \<Rightarrow> unit result" where
  "set_forEach_h domElement oldProps [] st = Done () st"
| "set_forEach_h domElement oldProps ((propName, propValue) # rest) st =
     (case props_at st oldProps of
        None \<Rightarrow> Raised TypeError st
      | Some old \<Rightarrow>
          if js_get old propName \<noteq> JString propValue
          then (case host (setAttribute domElement propName propValue) st of
                  Raised e st1 \<Rightarrow> Raised e st1
                | Done u st1 \<Rightarrow> set_forEach_h domElement oldProps rest st1)
          else set_forEach_h domElement oldProps rest st)"

definition updateDomAttributes_h ::
    "nat option \<Rightarrow> nat option \<Rightarrow> nat option \<Rightarrow> js_state \<Rightarrow> unit result" where
  "updateDomAttributes_h domElement oldProps newProps st =
     (case props_at st oldProps of
        None \<Rightarrow> Raised TypeError st
      | Some old \<Rightarrow>
          (case remove_forEach_h domElement newProps (map fst old) st of
             Raised e st1 \<Rightarrow> Raised e st1
           | Done u st1 \<Rightarrow>
               (case props_at st1 newProps of
                  None \<Rightarrow> Raised TypeError st1
                | Some new \<Rightarrow> set_forEach_h domElement oldProps new st1)))"

text \<open>
  \<^verbatim>\<open>renderVDomToDom(vNode, container)\<close>. The first argument of the model is the number of
  nested calls that the call stack has room for: a call that finds no room throws a
  \<^verbatim>\<open>RangeError\<close>, which is how a virtual tree that contains itself ends. \<open>render_forEach_h\<close>
  is \<^verbatim>\<open>vNode.children.forEach((child) => renderVDomToDom(child, domElement))\<close>: \<^verbatim>\<open>forEach\<close>
  reads the length of the array once and the entry at each index when it comes to it.
\<close>

definition append_to_container_h :: "nat option \<Rightarrow> nat \<Rightarrow> js_state \<Rightarrow> nat option result" where
  "append_to_container_h container domElement st =
     (case container of
        None \<Rightarrow> Done None st
      | Some c \<Rightarrow>
          (case host (appendChild c domElement) st of
             Raised e st1 \<Rightarrow> Raised e st1
           | Done u st1 \<Rightarrow> Done None st1))"

fun renderVDomToDom_h :: "nat \<Rightarrow> jsval \<Rightarrow> nat option \<Rightarrow> js_state \<Rightarrow> nat option result"
  and render_forEach_h :: "nat \<Rightarrow> nat \<Rightarrow> nat \<Rightarrow> nat \<Rightarrow> nat \<Rightarrow> js_state \<Rightarrow> unit result" where
  "renderVDomToDom_h 0 vNode container st = Raised RangeError st"
| "renderVDomToDom_h (Suc depth) vNode container st =
     (if isTextNode_h vNode then
        (case host_create (createTextNode (to_string_h vNode)) st of (domElement, st1) \<Rightarrow>
           append_to_container_h container domElement st1)
      else
        (case node_fields st vNode of
           None \<Rightarrow> Raised TypeError st
         | Some (NodeObject ty ps0 ch0) \<Rightarrow>
             (case host_create (createElement ty) st of (domElement, st1) \<Rightarrow>
             (case new_props_object st1 of (oldProps, st2) \<Rightarrow>
             (case node_fields st2 vNode of
                None \<Rightarrow> Raised TypeError st2
              | Some (NodeObject ty2 ps ch2) \<Rightarrow>
                  (case updateDomAttributes_h (Some domElement) (Some oldProps) ps st2 of
                     Raised e st3 \<Rightarrow> Raised e st3
                   | Done u st3 \<Rightarrow>
                       (case node_fields st3 vNode of
                          Some (NodeObject ty3 ps3 (ChildrenArray a)) \<Rightarrow>
                            (case array_at st3 a of
                               None \<Rightarrow> Raised TypeError st3
                             | Some vs \<Rightarrow>
                                 (case render_forEach_h depth a 0 (length vs) domElement st3 of
                                    Raised e st4 \<Rightarrow> Raised e st4
                                  | Done u' st4 \<Rightarrow>
                                      append_to_container_h container domElement st4))
                        | _ \<Rightarrow> Raised TypeError st3)))))))"
| "render_forEach_h depth a index 0 domElement st = Done () st"
| "render_forEach_h depth a index (Suc remaining) domElement st =
     (case element_at st a index of
        None \<Rightarrow> render_forEach_h depth a (Suc index) remaining domElement st
      | Some child \<Rightarrow>
          (case renderVDomToDom_h depth child (Some domElement) st of
             Raised e st1 \<Rightarrow> Raised e st1
           | Done u st1 \<Rightarrow> render_forEach_h depth a (Suc index) remaining domElement st1))"

text \<open>\<^verbatim>\<open>reRenderElement(vNode, parentDomElement)\<close>; its loop calls the host only.\<close>

definition reRenderElement_h :: "nat \<Rightarrow> jsval \<Rightarrow> nat option \<Rightarrow> js_state \<Rightarrow> unit result" where
  "reRenderElement_h depth vNode parentDomElement st =
     (case host (remove_children_while parentDomElement) st of
        Raised e st1 \<Rightarrow> Raised e st1
      | Done u st1 \<Rightarrow>
          (case renderVDomToDom_h depth vNode parentDomElement st1 of
             Raised e st2 \<Rightarrow> Raised e st2
           | Done r st2 \<Rightarrow> Done () st2))"

text \<open>
  \<^verbatim>\<open>getDomElementFromVNode\<close>, and \<^verbatim>\<open>previousVNode.children[index]\<close>: the entry of the array,
  \<^verbatim>\<open>undefined\<close> outside it, or the character of a string.
\<close>

definition getDomElementFromVNode_h :: "jsval \<Rightarrow> nat option \<Rightarrow> js_state \<Rightarrow> nat option result" where
  "getDomElementFromVNode_h vNode parentDomElement st =
     (case parentDomElement of
        None \<Rightarrow> Raised TypeError st
      | Some p \<Rightarrow> Done (firstChild p (live_nodes st)) st)"

definition child_at_h :: "js_state \<Rightarrow> jsval \<Rightarrow> nat \<Rightarrow> jsval option" where
  "child_at_h st previousVNode index =
     (case node_fields st previousVNode of
        None \<Rightarrow> None
      | Some (NodeObject ty ps (ChildrenString x)) \<Rightarrow>
          Some (if index < length x then JText [x ! index] else JUndef)
      | Some (NodeObject ty ps (ChildrenArray b)) \<Rightarrow>
          (case array_at st b of
             None \<Rightarrow> None
           | Some vs \<Rightarrow> Some (if index < length vs then vs ! index else JUndef)))"

text \<open>
  \<^verbatim>\<open>diffAndUpdate(previousVNode, currentVNode, parentDomElement)\<close>, with the room on the call
  stack and the binding of \<^verbatim>\<open>updateAttributes\<close> (\<open>None\<close> in the module as it stands) as the
  first two arguments; \<open>diff_forEach_h\<close> is the loop over \<^verbatim>\<open>currentVNode.children\<close>.
\<close>

type_synonym attribute_updater_h =
  "nat option \<Rightarrow> nat option \<Rightarrow> nat option \<Rightarrow> js_state \<Rightarrow> unit result"

fun diffAndUpdate_h ::
    "nat \<Rightarrow> attribute_updater_h option \<Rightarrow> jsval \<Rightarrow> jsval \<Rightarrow> nat option \<Rightarrow> js_state \<Rightarrow> unit result"
  and diff_forEach_h ::
    "nat \<Rightarrow> attribute_updater_h option \<Rightarrow> jsval \<Rightarrow> nat \<Rightarrow> nat \<Rightarrow> nat \<Rightarrow> nat option \<Rightarrow> js_state
      \<Rightarrow> unit result"
  where
  "diffAndUpdate_h 0 updateAttributes previousVNode currentVNode parentDomElement st =
     Raised RangeError st"
| "diffAndUpdate_h (Suc depth) updateAttributes previousVNode currentVNode parentDomElement st =
     (if currentVNode = JNull then host (clear_innerHTML parentDomElement) st
      else if isTextNode_h previousVNode \<or> isTextNode_h currentVNode then
        (if strict_neq_h previousVNode currentVNode
         then (case host_create (createTextNode (to_string_h currentVNode)) st of
                 (newDomElement, st1) \<Rightarrow>
                   host (replace_firstChild parentDomElement (Some newDomElement)) st1)
         else Done () st)
      else
        (case node_fields st previousVNode of
           None \<Rightarrow> Raised TypeError st
         | Some (NodeObject ptype pprops pchildren) \<Rightarrow>
             (case node_fields st currentVNode of
                None \<Rightarrow> Raised TypeError st
              | Some (NodeObject ctype cprops cchildren) \<Rightarrow>
                  if ptype \<noteq> ctype
                  then (case renderVDomToDom_h depth currentVNode None st of
                          Raised e st1 \<Rightarrow> Raised e st1
                        | Done newDomElement st1 \<Rightarrow>
                            host (replace_firstChild parentDomElement newDomElement) st1)
                  else
                    (case getDomElementFromVNode_h previousVNode parentDomElement st of
                       Raised e st1 \<Rightarrow> Raised e st1
                     | Done domElement st1 \<Rightarrow>
                         (case updateAttributes of
                            None \<Rightarrow> Raised ReferenceError st1
                          | Some f \<Rightarrow>
                              (case f domElement pprops cprops st1 of
                                 Raised e st2 \<Rightarrow> Raised e st2
                               | Done u st2 \<Rightarrow>
                                   (case node_fields st2 currentVNode of
                                      Some (NodeObject ty2 ps2 (ChildrenArray a)) \<Rightarrow>
                                        (case array_at st2 a of
                                           None \<Rightarrow> Raised TypeError st2
                                         | Some vs \<Rightarrow>
                                             diff_forEach_h depth updateAttributes previousVNode
                                               a 0 (length vs) domElement st2)
                                    | _ \<Rightarrow> Raised TypeError st2)))))))"
| "diff_forEach_h depth updateAttributes previousVNode a index 0 domElement st = Done () st"
| "diff_forEach_h depth updateAttributes previousVNode a index (Suc remaining) domElement st =
     (case element_at st a index of
        None \<Rightarrow>
          diff_forEach_h depth updateAttributes previousVNode a (Suc index) remaining domElement st
      | Some child \<Rightarrow>
          (case child_at_h st previousVNode index of
             None \<Rightarrow> Raised TypeError st
           | Some previousChild \<Rightarrow>
               if strict_neq_h child previousChild
               then (case diffAndUpdate_h depth updateAttributes previousChild child domElement st of
                       Raised e st1 \<Rightarrow> Raised e st1
                     | Done u st1 \<Rightarrow>
                         diff_forEach_h depth updateAttributes previousVNode a (Suc index) remaining
                           domElement st1)
               else diff_forEach_h depth updateAttributes previousVNode a (Suc index) remaining
                      domElement st))"

section \<open>Virtual trees and the shape of the live tree\<close>

text \<open>
  A VirtualNode tree of the data model: a text value, or an element whose \<open>props\<close> is an
  object and whose \<open>children\<close> is an array of VirtualNode trees.
\<close>

fun well_formed :: "vnode \<Rightarrow> bool"
  and well_formed_list :: "vnode list \<Rightarrow> bool" where
  "well_formed (VText x) = True"
| "well_formed (VTextObj i x) = True"
| "well_formed (VElem i ty (Some ps) (ChildArray cs)) = (distinct (map fst ps) \<and> well_formed_list cs)"
| "well_formed (VElem i ty None ch) = False"
| "well_formed (VElem i ty (Some ps) (ChildString x)) = False"
| "well_formed VNull = False"
| "well_formed VUndefined = False"
| "well_formed_list [] = True"
| "well_formed_list (v # vs) = (well_formed v \<and> well_formed_list vs)"

text \<open>The number of nodes of a virtual tree, elements and text nodes.\<close>

fun node_count :: "vnode \<Rightarrow> nat"
  and node_count_list :: "vnode list \<Rightarrow> nat" where
  "node_count (VText x) = 1"
| "node_count (VTextObj i x) = 1"
| "node_count (VElem i ty ps (ChildArray cs)) = Suc (node_count_list cs)"
| "node_count (VElem i ty ps (ChildString x)) = 1"
| "node_count VNull = 0"
| "node_count VUndefined = 0"
| "node_count_list [] = 0"
| "node_count_list (v # vs) = node_count v + node_count_list vs"

text \<open>
  The shape of a live subtree: what is left of it when the addresses are forgotten.
\<close>

datatype live = LText string | LElem string attrs "live list"

fun live_size :: "live \<Rightarrow> nat"
  and live_size_list :: "live list \<Rightarrow> nat" where
  "live_size (LText x) = 1"
| "live_size (LElem tag as ts) = Suc (live_size_list ts)"
| "live_size_list [] = 0"
| "live_size_list (t # ts) = live_size t + live_size_list ts"

text \<open>
  The shape that a virtual tree describes: the same tag names, text values and attributes,
  the children in the same order. Only the value on well-formed trees is used.
\<close>

fun live_of :: "vnode \<Rightarrow> live"
  and live_of_list :: "vnode list \<Rightarrow> live list" where
  "live_of (VElem i ty (Some ps) (ChildArray cs)) = LElem ty ps (live_of_list cs)"
| "live_of (VElem i ty None (ChildArray cs)) = LElem ty [] (live_of_list cs)"
| "live_of (VElem i ty ps (ChildString x)) = LElem ty [] []"
| "live_of (VText x) = LText x"
| "live_of (VTextObj i x) = LText x"
| "live_of VNull = LText (to_string VNull)"
| "live_of VUndefined = LText (to_string VUndefined)"
| "live_of_list [] = []"
| "live_of_list (v # vs) = live_of v # live_of_list vs"

text \<open>
  \<open>represents_from lo s r t\<close>: the live node at address \<open>r\<close> of the store \<open>s\<close> is the root of a
  subtree of shape \<open>t\<close>, all of whose nodes have addresses from \<open>lo\<close> on.
\<close>

fun represents_from :: "nat \<Rightarrow> dom \<Rightarrow> nat \<Rightarrow> live \<Rightarrow> bool"
  and represents_list_from :: "nat \<Rightarrow> dom \<Rightarrow> nat list \<Rightarrow> live list \<Rightarrow> bool" where
  "represents_from lo s r (LText x) = (lo \<le> r \<and> node_at s r = Some (Text x))"
| "represents_from lo s r (LElem tag as ts) =
     (lo \<le> r \<and>
      (case node_at s r of
         Some (Element tag' as' cs) \<Rightarrow> tag' = tag \<and> as' = as \<and> represents_list_from lo s cs ts
       | _ \<Rightarrow> False))"
| "represents_list_from lo s [] [] = True"
| "represents_list_from lo s (c # cs) (t # ts) =
     (represents_from lo s c t \<and> represents_list_from lo s cs ts)"
| "represents_list_from lo s [] (t # ts) = False"
| "represents_list_from lo s (c # cs) [] = False"

definition represents :: "dom \<Rightarrow> nat \<Rightarrow> live \<Rightarrow> bool" where
  "represents s r t = represents_from 0 s r t"

section \<open>Frames\<close>

text \<open>
  \<open>changes_only target s s'\<close>: the store \<open>s'\<close> holds every node of \<open>s\<close> at its address, unchanged
  except for the node at \<open>target\<close>, and possibly new nodes after them.
\<close>

definition changes_only :: "nat option \<Rightarrow> dom \<Rightarrow> dom \<Rightarrow> bool" where
  "changes_only target s s' =
     (length s \<le> length s' \<and> (\<forall>i<length s. Some i \<noteq> target \<longrightarrow> s' ! i = s ! i))"

text \<open>A live node without its list of children: its text, or its tag name and attributes.\<close>

fun without_children :: "dnode \<Rightarrow> dnode" where
  "without_children (Text x) = Text x"
| "without_children (Element tag as cs) = Element tag as []"

text \<open>
  \<open>keeps_labels s s'\<close>: every node of \<open>s\<close> has in \<open>s'\<close> the text, or the tag name and the
  attributes, that it has in \<open>s\<close>.
\<close>

definition keeps_labels :: "dom \<Rightarrow> dom \<Rightarrow> bool" where
  "keeps_labels s s' =
     (length s \<le> length s' \<and> (\<forall>i<length s. without_children (s' ! i) = without_children (s ! i)))"

text \<open>
  The children of a live node, and the relation of a node of the store to each of its
  children: a node is a descendant of \<open>p\<close> when the transitive closure of the relation
  relates \<open>p\<close> to it.
\<close>

fun children_of :: "dnode \<Rightarrow> nat list" where
  "children_of (Text x) = []"
| "children_of (Element tag as cs) = cs"

definition child_rel :: "dom \<Rightarrow> (nat \<times> nat) set" where
  "child_rel s = {(p, c). p < length s \<and> c \<in> set (children_of (s ! p))}"

text \<open>
  \<open>within_subtree container s s'\<close>: the store \<open>s'\<close> holds every node of \<open>s\<close> at its address,
  and those whose value has changed are the container or descendants of the container in \<open>s\<close>.
\<close>

definition within_subtree :: "nat option \<Rightarrow> dom \<Rightarrow> dom \<Rightarrow> bool" where
  "within_subtree container s s' =
     (length s \<le> length s' \<and>
      (\<forall>i<length s. s' ! i \<noteq> s ! i \<longrightarrow>
         (\<exists>p. container = Some p \<and> (i = p \<or> (p, i) \<in> (child_rel s)\<^sup>+))))"

text \<open>
  \<open>shrinks s s'\<close>: a node of \<open>s'\<close> has a node of \<open>s\<close> among its children only if it had it in
  \<open>s\<close>. \<open>same_children s s'\<close>: the two stores have the same nodes with the same children.
\<close>

definition shrinks :: "dom \<Rightarrow> dom \<Rightarrow> bool" where
  "shrinks s s' =
     (length s \<le> length s' \<and>
      (\<forall>i c. (i, c) \<in> child_rel s' \<longrightarrow> c < length s \<longrightarrow> (i, c) \<in> child_rel s))"

definition same_children :: "dom \<Rightarrow> dom \<Rightarrow> bool" where
  "same_children s s' =
     (length s' = length s \<and> (\<forall>i<length s. children_of (s' ! i) = children_of (s ! i)))"

text \<open>
  \<open>objects_kept st st'\<close>: every node object, every props object and every array of the heap of
  \<open>st\<close> is in the heap of \<open>st'\<close> at its address and with the same content: the same \<open>type\<close>,
  \<open>props\<close> and \<open>children\<close> fields, the same properties, the same entries. Objects may have
  been added after them.
\<close>

definition objects :: "js_state \<Rightarrow> node_object list \<times> attrs list \<times> jsval list list" where
  "objects st = (node_objects st, props_objects st, array_objects st)"

definition objects_kept :: "js_state \<Rightarrow> js_state \<Rightarrow> bool" where
  "objects_kept st st' =
     (take (length (node_objects st)) (node_objects st') = node_objects st
      \<and> take (length (props_objects st)) (props_objects st') = props_objects st
      \<and> take (length (array_objects st)) (array_objects st') = array_objects st)"

definition frame_h :: "nat option \<Rightarrow> js_state \<Rightarrow> js_state \<Rightarrow> bool" where
  "frame_h target st st' =
     (objects_kept st st'
      \<and> changes_only target (live_nodes st) (live_nodes st')
      \<and> keeps_labels (live_nodes st) (live_nodes st'))"

section \<open>A heap that holds a virtual tree\<close>

text \<open>
  The two embeddings are of the same program. \<open>encodes st jv v\<close> says that in the state
  \<open>st\<close> the value \<open>jv\<close> denotes the virtual tree \<open>v\<close>: a string is itself, an element node
  with identity \<open>i\<close> is the reference to the node object at \<open>i\<close>, whose \<open>type\<close> is the tag,
  whose \<open>props\<close> field is \<^verbatim>\<open>undefined\<close> or refers to a props object with the attributes, and
  whose \<open>children\<close> field is the string or refers to an array that holds, entry by entry,
  values that denote the children.
\<close>

definition encodes_props :: "js_state \<Rightarrow> nat option \<Rightarrow> attrs option \<Rightarrow> bool" where
  "encodes_props st pr ps =
     (case ps of
        None \<Rightarrow> pr = None
      | Some al \<Rightarrow> pr \<noteq> None \<and> props_at st pr = Some al)"

fun encodes :: "js_state \<Rightarrow> jsval \<Rightarrow> vnode \<Rightarrow> bool"
  and encodes_list :: "js_state \<Rightarrow> jsval list \<Rightarrow> vnode list \<Rightarrow> bool" where
  "encodes st jv VNull = (jv = JNull)"
| "encodes st jv VUndefined = (jv = JUndef)"
| "encodes st jv (VText x) = (jv = JText x)"
| "encodes st jv (VTextObj i x) = (jv = JTextObj i x)"
| "encodes st jv (VElem i ty ps (ChildString x)) =
     (jv = JRef i \<and>
      (case node_fields st jv of
         Some (NodeObject ty' pr (ChildrenString x')) \<Rightarrow> ty' = ty \<and> x' = x \<and> encodes_props st pr ps
       | _ \<Rightarrow> False))"
| "encodes st jv (VElem i ty ps (ChildArray cs)) =
     (jv = JRef i \<and>
      (case node_fields st jv of
         Some (NodeObject ty' pr (ChildrenArray a)) \<Rightarrow>
           ty' = ty \<and> encodes_props st pr ps \<and>
           (case array_at st a of Some vs \<Rightarrow> encodes_list st vs cs | None \<Rightarrow> False)
       | _ \<Rightarrow> False))"
| "encodes_list st [] [] = True"
| "encodes_list st (jv # jvs) (v # vs) = (encodes st jv v \<and> encodes_list st jvs vs)"
| "encodes_list st [] (v # vs) = False"
| "encodes_list st (jv # jvs) [] = False"

text \<open>
  The number of calls of \<^verbatim>\<open>renderVDomToDom\<close> that are nested inside the call on a tree, which
  is the room on the call stack that the call needs beyond its own frame.
\<close>

fun height :: "vnode \<Rightarrow> nat"
  and height_list :: "vnode list \<Rightarrow> nat" where
  "height (VElem i ty ps (ChildArray cs)) = height_list cs"
| "height (VElem i ty ps (ChildString x)) = 0"
| "height VNull = 0"
| "height VUndefined = 0"
| "height (VText x) = 0"
| "height (VTextObj i x) = 0"
| "height_list [] = 0"
| "height_list (v # vs) = max (Suc (height v)) (height_list vs)"

text \<open>
  A run over the heap and a run on the value agree: both return the same value or both throw
  the same error, and they leave the same store of live nodes.
\<close>

fun agrees :: "'a result \<Rightarrow> 'a outcome \<Rightarrow> bool" where
  "agrees (Done x st) (Returned y s) = (x = y \<and> live_nodes st = s)"
| "agrees (Raised e st) (Thrown e' s) = (e = e' \<and> live_nodes st = s)"
| "agrees (Done x st) (Thrown e' s) = False"
| "agrees (Raised e st) (Returned y s) = False"

section \<open>Auxiliary facts\<close>

lemma update_fresh: "k \<notin> fst ` set as \<Longrightarrow> AList.update k v as = as @ [(k, v)]"
  by (induction as) auto

lemma js_get_empty: "js_get [] k \<noteq> JString v"
  by (simp add: js_get_def)

lemma set_forEach_fresh:
  assumes "r < length s" and "s ! r = Element tag as cs" and "distinct (map fst (as @ ps))"
  shows "set_forEach (Some r) [] ps s = Returned () (s[r := Element tag (as @ ps) cs])"
  using assms
proof (induction ps arbitrary: s as)
  case Nil
  then have "s[r := Element tag as cs] = s" by (metis list_update_id)
  then show ?case by simp
next
  case (Cons p ps)
  obtain k v where p: "p = (k, v)" by (cases p)
  have fresh: "k \<notin> fst ` set as" using Cons.prems(3) p by auto
  let ?s1 = "s[r := Element tag (as @ [(k, v)]) cs]"
  have step: "setAttribute (Some r) k v s = Returned () ?s1"
    using Cons.prems(1,2) fresh by (simp add: setAttribute_def node_at_def update_fresh)
  have "set_forEach (Some r) [] ps ?s1 = Returned () (?s1[r := Element tag ((as @ [(k, v)]) @ ps) cs])"
    using Cons.prems p by (intro Cons.IH) auto
  then show ?case using step p by (simp add: js_get_empty)
qed

lemma updateDomAttributes_fresh:
  assumes "r < length s" and "s ! r = Element tag [] cs" and "distinct (map fst ps)"
  shows "updateDomAttributes (Some r) (Some []) (Some ps) s = Returned () (s[r := Element tag ps cs])"
  using set_forEach_fresh[OF assms(1,2)] assms(3) by (simp add: updateDomAttributes_def)

lemma represents_from_stable:
  "represents_from lo s r t \<Longrightarrow> length s \<le> length s' \<Longrightarrow>
     (\<And>i. lo \<le> i \<Longrightarrow> i < length s \<Longrightarrow> s' ! i = s ! i) \<Longrightarrow> represents_from lo s' r t"
  "represents_list_from lo s rs ts \<Longrightarrow> length s \<le> length s' \<Longrightarrow>
     (\<And>i. lo \<le> i \<Longrightarrow> i < length s \<Longrightarrow> s' ! i = s ! i) \<Longrightarrow> represents_list_from lo s' rs ts"
proof (induction lo s r t and lo s rs ts rule: represents_from_represents_list_from.induct)
  case (1 lo s r x)
  then show ?case by (auto simp: node_at_def split: if_splits)
next
  case (2 lo s r tag as ts)
  then show ?case by (auto simp: node_at_def split: if_splits dnode.splits)
qed auto

lemma represents_from_mono:
  "represents_from lo s r t \<Longrightarrow> lo' \<le> lo \<Longrightarrow> represents_from lo' s r t"
  "represents_list_from lo s rs ts \<Longrightarrow> lo' \<le> lo \<Longrightarrow> represents_list_from lo' s rs ts"
proof (induction lo s r t and lo s rs ts rule: represents_from_represents_list_from.induct)
  case (2 lo s r tag as ts)
  then show ?case by (auto split: option.splits dnode.splits)
qed auto

lemma append_to_container_None: "append_to_container None r s = Returned None s"
  by (simp add: append_to_container_def)

lemma append_to_container_Some:
  "c < length s \<Longrightarrow> s ! c = Element tag as cs \<Longrightarrow>
   append_to_container (Some c) r s = Returned None (s[c := Element tag as (cs @ [r])])"
  by (simp add: append_to_container_def appendChild_def node_at_def)

lemma represents_from_LElemI:
  "lo \<le> r \<Longrightarrow> r < length s \<Longrightarrow> s ! r = Element tag as rs \<Longrightarrow> represents_list_from lo s rs ts \<Longrightarrow>
   represents_from lo s r (LElem tag as ts)"
  by (simp add: node_at_def)

lemma render_text_correct:
  assumes "container = None \<or> (\<exists>c. container = Some c \<and> c < length s \<and> s ! c = Element tag as cs)"
  shows "\<exists>s'. append_to_container container (length s) (s @ [Text x]) = Returned None s'
        \<and> length s' = length s + 1
        \<and> (\<forall>i<length s. Some i \<noteq> container \<longrightarrow> s' ! i = s ! i)
        \<and> (\<forall>c. container = Some c \<longrightarrow> s' ! c = Element tag as (cs @ [length s]))
        \<and> represents_from (length s) s' (length s) (LText x)"
  using assms
proof
  assume "container = None"
  then show ?thesis
    by (simp add: append_to_container_None node_at_def nth_append)
next
  assume "\<exists>c. container = Some c \<and> c < length s \<and> s ! c = Element tag as cs"
  then obtain c where c: "container = Some c" "c < length s" "s ! c = Element tag as cs"
    by blast
  have "append_to_container (Some c) (length s) (s @ [Text x])
      = Returned None ((s @ [Text x])[c := Element tag as (cs @ [length s])])"
    by (rule append_to_container_Some) (use c in \<open>simp_all add: nth_append\<close>)
  then show ?thesis
    using c by (simp add: node_at_def nth_append nth_list_update)
qed

lemma render_correct:
  "well_formed v \<Longrightarrow>
   container = None \<or> (\<exists>c. container = Some c \<and> c < length s \<and> s ! c = Element tag as cs) \<Longrightarrow>
     \<exists>s'. renderVDomToDom v container s = Returned None s'
        \<and> length s' = length s + node_count v
        \<and> (\<forall>i<length s. Some i \<noteq> container \<longrightarrow> s' ! i = s ! i)
        \<and> (\<forall>c. container = Some c \<longrightarrow> s' ! c = Element tag as (cs @ [length s]))
        \<and> represents_from (length s) s' (length s) (live_of v)"
  "well_formed_list vs \<Longrightarrow> d < length s \<Longrightarrow> s ! d = Element tag as cs \<Longrightarrow>
     \<exists>s' rs. render_forEach vs d s = Returned () s'
        \<and> length s' = length s + node_count_list vs
        \<and> (\<forall>i<length s. i \<noteq> d \<longrightarrow> s' ! i = s ! i)
        \<and> s' ! d = Element tag as (cs @ rs)
        \<and> represents_list_from (length s) s' rs (live_of_list vs)"
proof (induction v container s and vs d s arbitrary: tag as cs and tag as cs
    rule: renderVDomToDom_render_forEach.induct)
  case (1 x container s)
  then show ?case
    using render_text_correct[of container s tag as cs x] by (simp add: createTextNode_def)
next
  case (2 i x container s)
  then show ?case
    using render_text_correct[of container s tag as cs x] by (simp add: createTextNode_def)
next
  case (3 container s)
  then show ?case by simp
next
  case (4 container s)
  then show ?case by simp
next
  case (5 i ty ps x container s)
  then show ?case by (cases ps) auto
next
  case (6 i ty ps cs' container s)
  from "6.prems"(1) obtain ps' where ps: "ps = Some ps'" and dist: "distinct (map fst ps')"
    and wfl: "well_formed_list cs'"
    by (cases ps) auto
  let ?el = "length s"
  let ?s1 = "s @ [Element ty [] []]"
  let ?s2 = "?s1[?el := Element ty ps' []]"
  have ce: "createElement ty s = (?el, ?s1)" by (simp add: createElement_def)
  have ua: "updateDomAttributes (Some ?el) (Some []) ps ?s1 = Returned () ?s2"
    unfolding ps by (rule updateDomAttributes_fresh) (simp_all add: dist)
  have "\<exists>s' rs. render_forEach cs' ?el ?s2 = Returned () s'
        \<and> length s' = length ?s2 + node_count_list cs'
        \<and> (\<forall>i<length ?s2. i \<noteq> ?el \<longrightarrow> s' ! i = ?s2 ! i)
        \<and> s' ! ?el = Element ty ps' ([] @ rs)
        \<and> represents_list_from (length ?s2) s' rs (live_of_list cs')"
    by (rule "6.IH"[OF ce[symmetric] ua wfl]) simp_all
  then obtain s3 rs where fe: "render_forEach cs' ?el ?s2 = Returned () s3"
    and len3: "length s3 = Suc (length s) + node_count_list cs'"
    and frame3: "\<forall>i<Suc (length s). i \<noteq> ?el \<longrightarrow> s3 ! i = ?s2 ! i"
    and el3: "s3 ! ?el = Element ty ps' rs"
    and rep3: "represents_list_from (Suc (length s)) s3 rs (live_of_list cs')"
    by auto
  have old3: "\<forall>i<length s. s3 ! i = s ! i"
    using frame3 by (simp add: nth_append)
  have ren: "renderVDomToDom (VElem i ty ps (ChildArray cs')) container s
      = append_to_container container ?el s3"
    using ce ua fe by simp
  from "6.prems"(2) show ?case
  proof
    assume none: "container = None"
    have "represents_from ?el s3 ?el (LElem ty ps' (live_of_list cs'))"
      using el3 len3 represents_from_mono(2)[OF rep3, of ?el]
      by (intro represents_from_LElemI) auto
    then show ?thesis
      using ren none len3 old3 ps by (simp add: append_to_container_None)
  next
    assume "\<exists>c. container = Some c \<and> c < length s \<and> s ! c = Element tag as cs"
    then obtain c where c: "container = Some c" "c < length s" "s ! c = Element tag as cs"
      by blast
    let ?s4 = "s3[c := Element tag as (cs @ [?el])]"
    have c3: "c < length s3" "s3 ! c = Element tag as cs"
      using c old3 len3 by auto
    have app: "append_to_container container ?el s3 = Returned None ?s4"
      unfolding c(1) by (rule append_to_container_Some[OF c3])
    have "represents_list_from (Suc (length s)) ?s4 rs (live_of_list cs')"
      using rep3 by (rule represents_from_stable(2)) (use c in auto)
    then have "represents_list_from ?el ?s4 rs (live_of_list cs')"
      by (rule represents_from_mono(2)) simp
    then have "represents_from ?el ?s4 ?el (LElem ty ps' (live_of_list cs'))"
      using el3 len3 c by (intro represents_from_LElemI) auto
    then show ?thesis
      using ren app c len3 old3 ps by (auto simp: nth_list_update)
  qed
next
  case (7 domElement s)
  then show ?case by simp
next
  case (8 child rest d s)
  from "8.prems" have wf: "well_formed child" and wfl: "well_formed_list rest" by auto
  have "\<exists>s'. renderVDomToDom child (Some d) s = Returned None s'
        \<and> length s' = length s + node_count child
        \<and> (\<forall>i<length s. Some i \<noteq> Some d \<longrightarrow> s' ! i = s ! i)
        \<and> (\<forall>c. Some d = Some c \<longrightarrow> s' ! c = Element tag as (cs @ [length s]))
        \<and> represents_from (length s) s' (length s) (live_of child)"
    by (rule "8.IH"(1)[OF wf]) (use "8.prems" in auto)
  then obtain s1 where r1: "renderVDomToDom child (Some d) s = Returned None s1"
    and len1: "length s1 = length s + node_count child"
    and frame1: "\<forall>i<length s. i \<noteq> d \<longrightarrow> s1 ! i = s ! i"
    and d1: "s1 ! d = Element tag as (cs @ [length s])"
    and rep1: "represents_from (length s) s1 (length s) (live_of child)"
    by auto
  have "\<exists>s' rs. render_forEach rest d s1 = Returned () s'
        \<and> length s' = length s1 + node_count_list rest
        \<and> (\<forall>i<length s1. i \<noteq> d \<longrightarrow> s' ! i = s1 ! i)
        \<and> s' ! d = Element tag as ((cs @ [length s]) @ rs)
        \<and> represents_list_from (length s1) s' rs (live_of_list rest)"
    by (rule "8.IH"(2)[OF r1 wfl]) (use "8.prems" len1 d1 in auto)
  then obtain s2 rs where r2: "render_forEach rest d s1 = Returned () s2"
    and len2: "length s2 = length s1 + node_count_list rest"
    and frame2: "\<forall>i<length s1. i \<noteq> d \<longrightarrow> s2 ! i = s1 ! i"
    and d2: "s2 ! d = Element tag as (cs @ (length s # rs))"
    and rep2: "represents_list_from (length s1) s2 rs (live_of_list rest)"
    by auto
  have "represents_from (length s) s2 (length s) (live_of child)"
    using rep1 by (rule represents_from_stable(1)) (use len2 frame2 "8.prems" in auto)
  moreover have "represents_list_from (length s) s2 rs (live_of_list rest)"
    using rep2 by (rule represents_from_mono(2)) (simp add: len1)
  ultimately have "represents_list_from (length s) s2 (length s # rs) (live_of_list (child # rest))"
    by simp
  moreover have "\<forall>i<length s. i \<noteq> d \<longrightarrow> s2 ! i = s ! i"
    using frame1 frame2 len1 by auto
  ultimately show ?case
    using r1 r2 len1 len2 d2 by auto
qed

lemma represents_from_unique:
  "represents_from lo s r t \<Longrightarrow> represents_from lo' s r t' \<Longrightarrow> t = t'"
  "represents_list_from lo s rs ts \<Longrightarrow> represents_list_from lo' s rs ts' \<Longrightarrow> ts = ts'"
proof (induction lo s r t and lo s rs ts arbitrary: t' lo' and ts' lo' rule: represents_from_represents_list_from.induct)
  case (1 lo s r x)
  then show ?case by (cases t') (auto split: option.splits dnode.splits)
next
  case (2 lo s r tag as ts)
  then show ?case by (cases t') (auto split: option.splits dnode.splits)
next
  case (3 lo s)
  then show ?case by (cases ts') auto
next
  case (4 lo s c cs t ts)
  then show ?case by (cases ts') auto
next
  case (5 lo s t ts)
  then show ?case by simp
next
  case (6 lo s c cs)
  then show ?case by simp
qed

lemma live_size_live_of:
  "well_formed v \<Longrightarrow> live_size (live_of v) = node_count v"
  "well_formed_list vs \<Longrightarrow> live_size_list (live_of_list vs) = node_count_list vs"
  by (induction v and vs rule: well_formed_well_formed_list.induct) auto

lemma remove_children_while_element:
  "c < length s \<Longrightarrow> s ! c = Element tag as cs \<Longrightarrow>
   remove_children_while (Some c) s = Returned () (s[c := Element tag as []])"
proof (induction cs arbitrary: s)
  case Nil
  then have "s[c := Element tag as []] = s" by (metis list_update_id)
  then show ?case using Nil
    by (subst remove_children_while.simps) (simp add: firstChild_def node_at_def)
next
  case (Cons x xs)
  let ?s1 = "s[c := Element tag as xs]"
  have "remove_children_while (Some c) ?s1 = Returned () (?s1[c := Element tag as []])"
    by (rule Cons.IH) (use Cons.prems in auto)
  then show ?case using Cons.prems
    by (subst remove_children_while.simps)
      (simp add: firstChild_def node_at_def removeChild_def)
qed

lemma reRender_correct:
  assumes "well_formed v" and "c < length s" and "s ! c = Element tag as cs"
  shows "\<exists>s'. reRenderElement v (Some c) s = Returned () s'
      \<and> length s' = length s + node_count v
      \<and> (\<forall>i<length s. i \<noteq> c \<longrightarrow> s' ! i = s ! i)
      \<and> s' ! c = Element tag as [length s]
      \<and> represents s' c (LElem tag as [live_of v])"
proof -
  let ?s0 = "s[c := Element tag as []]"
  have rm: "remove_children_while (Some c) s = Returned () ?s0"
    by (rule remove_children_while_element[OF assms(2,3)])
  have "\<exists>s'. renderVDomToDom v (Some c) ?s0 = Returned None s'
        \<and> length s' = length ?s0 + node_count v
        \<and> (\<forall>i<length ?s0. Some i \<noteq> Some c \<longrightarrow> s' ! i = ?s0 ! i)
        \<and> (\<forall>c'. Some c = Some c' \<longrightarrow> s' ! c' = Element tag as ([] @ [length ?s0]))
        \<and> represents_from (length ?s0) s' (length ?s0) (live_of v)"
    by (rule render_correct(1)[OF assms(1)]) (use assms in auto)
  then obtain s' where r: "renderVDomToDom v (Some c) ?s0 = Returned None s'"
    and len: "length s' = length s + node_count v"
    and frame: "\<forall>i<length s. i \<noteq> c \<longrightarrow> s' ! i = s ! i"
    and cont: "s' ! c = Element tag as [length s]"
    and rep: "represents_from (length s) s' (length s) (live_of v)"
    by auto
  have "represents_from 0 s' (length s) (live_of v)"
    using rep by (rule represents_from_mono(1)) simp
  then have "represents s' c (LElem tag as [live_of v])"
    using cont len assms(2) by (simp add: represents_def node_at_def)
  then show ?thesis
    using rm r len frame cont by (simp add: reRenderElement_def)
qed

subsection \<open>Frames of the operations\<close>

lemma changes_only_refl: "changes_only t s s"
  by (simp add: changes_only_def)

lemma changes_only_trans:
  "changes_only t s s1 \<Longrightarrow> changes_only t s1 s2 \<Longrightarrow> changes_only t s s2"
  by (auto simp: changes_only_def)

lemma changes_only_fresh:
  "changes_only t s s1 \<Longrightarrow> changes_only (Some e) s1 s2 \<Longrightarrow> length s \<le> e \<Longrightarrow> changes_only t s s2"
  by (auto simp: changes_only_def)

lemma changes_only_None: "changes_only None s s' \<Longrightarrow> changes_only t s s'"
  by (auto simp: changes_only_def)

lemma changes_only_append: "changes_only t s (s @ ns)"
  by (auto simp: changes_only_def nth_append)

lemma keeps_labels_refl: "keeps_labels s s"
  by (simp add: keeps_labels_def)

lemma keeps_labels_trans:
  "keeps_labels s s1 \<Longrightarrow> keeps_labels s1 s2 \<Longrightarrow> keeps_labels s s2"
  by (auto simp: keeps_labels_def)

lemma keeps_labels_fresh:
  "keeps_labels s s1 \<Longrightarrow> changes_only (Some e) s1 s2 \<Longrightarrow> length s \<le> e \<Longrightarrow> keeps_labels s s2"
  by (auto simp: keeps_labels_def changes_only_def)

lemma keeps_labels_append: "keeps_labels s (s @ ns)"
  by (auto simp: keeps_labels_def nth_append)

lemma setAttribute_frame: "changes_only el s (final_dom (setAttribute el k v s))"
  by (auto simp: setAttribute_def changes_only_def node_at_def
      split: option.splits dnode.splits if_splits)

lemma removeAttribute_frame: "changes_only el s (final_dom (removeAttribute el k s))"
  by (auto simp: removeAttribute_def changes_only_def node_at_def
      split: option.splits dnode.splits if_splits)

lemma remove_forEach_frame: "changes_only el s (final_dom (remove_forEach el new ks s))"
proof (induction ks arbitrary: s)
  case Nil
  show ?case by (simp add: changes_only_refl)
next
  case (Cons k ks)
  show ?case
  proof (cases new)
    case None
    then show ?thesis by (simp add: changes_only_refl)
  next
    case (Some n)
    show ?thesis
    proof (cases "js_in k n")
      case True
      then show ?thesis using Some Cons.IH by simp
    next
      case False
      show ?thesis
      proof (cases "removeAttribute el k s")
        case (Returned u s1)
        then have "changes_only el s s1" using removeAttribute_frame[of el s k] by simp
        then show ?thesis
          using Some False Returned Cons.IH[of s1] by (auto intro: changes_only_trans)
      next
        case (Thrown e s1)
        then have "changes_only el s s1" using removeAttribute_frame[of el s k] by simp
        then show ?thesis using Some False Thrown by simp
      qed
    qed
  qed
qed

lemma set_forEach_frame: "changes_only el s (final_dom (set_forEach el old new s))"
proof (induction new arbitrary: s)
  case Nil
  show ?case by (simp add: changes_only_refl)
next
  case (Cons p new)
  obtain k v where p: "p = (k, v)" by (cases p)
  show ?case
  proof (cases "js_get old k \<noteq> JString v")
    case False
    then show ?thesis using p Cons.IH by simp
  next
    case True
    show ?thesis
    proof (cases "setAttribute el k v s")
      case (Returned u s1)
      then have "changes_only el s s1" using setAttribute_frame[of el s k v] by simp
      then show ?thesis
        using p True Returned Cons.IH[of s1] by (auto intro: changes_only_trans)
    next
      case (Thrown e s1)
      then have "changes_only el s s1" using setAttribute_frame[of el s k v] by simp
      then show ?thesis using p True Thrown by simp
    qed
  qed
qed

lemma updateDomAttributes_frame:
  "changes_only el s (final_dom (updateDomAttributes el old new s))"
proof (cases old)
  case None
  then show ?thesis by (simp add: updateDomAttributes_def changes_only_refl)
next
  case (Some ol)
  show ?thesis
  proof (cases "remove_forEach el new (map fst ol) s")
    case (Thrown e s1)
    then show ?thesis
      using Some remove_forEach_frame[of el s new "map fst ol"]
      by (simp add: updateDomAttributes_def)
  next
    case (Returned u s1)
    then have a: "changes_only el s s1"
      using remove_forEach_frame[of el s new "map fst ol"] by simp
    show ?thesis
    proof (cases new)
      case None
      then show ?thesis using Some Returned a by (simp add: updateDomAttributes_def)
    next
      case (Some n)
      then show ?thesis
        using \<open>old = Some ol\<close> Returned a set_forEach_frame[of el s1 ol n]
        by (auto simp: updateDomAttributes_def intro: changes_only_trans)
    qed
  qed
qed

lemma append_to_container_frame:
  "changes_only container s (final_dom (append_to_container container r s))"
  "keeps_labels s (final_dom (append_to_container container r s))"
  by (auto simp: append_to_container_def appendChild_def changes_only_def keeps_labels_def
      node_at_def nth_list_update split: option.splits dnode.splits if_splits)

lemma append_to_container_returns:
  "append_to_container container r s = Returned x s' \<Longrightarrow> x = None"
  by (auto simp: append_to_container_def split: option.splits outcome.splits)


lemma render_text_frame:
  "changes_only container s (final_dom (append_to_container container r (s @ [n])))"
  "keeps_labels s (final_dom (append_to_container container r (s @ [n])))"
  using append_to_container_frame[where container=container and s="s @ [n]" and r=r]
    changes_only_append[of container s "[n]"] keeps_labels_append[of s "[n]"]
  by (blast intro: changes_only_trans keeps_labels_trans)+

lemma render_frame:
  "changes_only container s (final_dom (renderVDomToDom v container s))
   \<and> keeps_labels s (final_dom (renderVDomToDom v container s))"
  "changes_only (Some d) s (final_dom (render_forEach vs d s))
   \<and> keeps_labels s (final_dom (render_forEach vs d s))"
proof (induction v container s and vs d s rule: renderVDomToDom_render_forEach.induct)
  case (1 x container s)
  show ?case using render_text_frame[where container=container and s=s and r="length s" and n="Text x"]
    by (simp add: createTextNode_def)
next
  case (2 i x container s)
  show ?case using render_text_frame[where container=container and s=s and r="length s" and n="Text x"]
    by (simp add: createTextNode_def)
next
  case (3 container s)
  show ?case by (simp add: changes_only_refl keeps_labels_refl)
next
  case (4 container s)
  show ?case by (simp add: changes_only_refl keeps_labels_refl)
next
  case (5 i ty ps x container s)
  let ?el = "length s"
  let ?s1 = "s @ [Element ty [] []]"
  let ?m = "updateDomAttributes (Some ?el) (Some []) ps ?s1"
  have a: "changes_only container s ?s1" "keeps_labels s ?s1"
    by (rule changes_only_append, rule keeps_labels_append)
  have b: "changes_only (Some ?el) ?s1 (final_dom ?m)"
    by (rule updateDomAttributes_frame)
  have "changes_only container s (final_dom ?m)" "keeps_labels s (final_dom ?m)"
    using a b by (blast intro: changes_only_fresh keeps_labels_fresh)+
  then show ?case
    by (cases ?m) (simp_all add: createElement_def)
next
  case (6 i ty ps cs container s)
  let ?el = "length s"
  let ?s1 = "s @ [Element ty [] []]"
  let ?m = "updateDomAttributes (Some ?el) (Some []) ps ?s1"
  have ce: "(?el, ?s1) = createElement ty s" by (simp add: createElement_def)
  have a: "changes_only container s ?s1" "keeps_labels s ?s1"
    by (rule changes_only_append, rule keeps_labels_append)
  have b: "changes_only (Some ?el) ?s1 (final_dom ?m)"
    by (rule updateDomAttributes_frame)
  have c: "changes_only container s (final_dom ?m)" "keeps_labels s (final_dom ?m)"
    using a b by (blast intro: changes_only_fresh keeps_labels_fresh)+
  show ?case
  proof (cases ?m)
    case (Thrown e s2)
    then show ?thesis using c by (simp add: createElement_def)
  next
    case (Returned u s2)
    let ?f = "render_forEach cs ?el s2"
    have d: "changes_only (Some ?el) s2 (final_dom ?f)" "keeps_labels s2 (final_dom ?f)"
      using "6.IH"[OF ce Returned] by simp_all
    have e: "changes_only container s (final_dom ?f)" "keeps_labels s (final_dom ?f)"
      using c d Returned by (auto intro: changes_only_fresh keeps_labels_trans)
    show ?thesis
    proof (cases ?f)
      case (Thrown e' s3)
      then show ?thesis using e Returned by (simp add: createElement_def)
    next
      case (Returned u' s3)
      have "changes_only container s (final_dom (append_to_container container ?el s3))"
        "keeps_labels s (final_dom (append_to_container container ?el s3))"
        using e Returned append_to_container_frame[where container=container and s=s3 and r="?el"]
        by (auto intro: changes_only_trans keeps_labels_trans)
      then show ?thesis
        using \<open>?m = Returned u s2\<close> Returned by (simp add: createElement_def)
    qed
  qed
next
  case (7 domElement s)
  show ?case by (simp add: changes_only_refl keeps_labels_refl)
next
  case (8 child rest d s)
  let ?m = "renderVDomToDom child (Some d) s"
  have a: "changes_only (Some d) s (final_dom ?m)" "keeps_labels s (final_dom ?m)"
    using "8.IH"(1) by simp_all
  show ?case
  proof (cases ?m)
    case (Thrown e s1)
    then show ?thesis using a by simp
  next
    case (Returned u s1)
    have "changes_only (Some d) s1 (final_dom (render_forEach rest d s1))"
      "keeps_labels s1 (final_dom (render_forEach rest d s1))"
      using "8.IH"(2)[OF Returned] by simp_all
    then show ?thesis
      using a Returned by (auto intro: changes_only_trans keeps_labels_trans)
  qed
qed

lemma render_returns_undefined:
  "renderVDomToDom v container s = Returned r s' \<Longrightarrow> r = None"
proof (cases v)
  case (VElem i ty ps ch)
  assume "renderVDomToDom v container s = Returned r s'"
  then show ?thesis using VElem
    by (cases ch) (auto simp: createElement_def split: outcome.splits dest: append_to_container_returns)
qed (auto simp: createTextNode_def dest: append_to_container_returns)

lemma removeChild_frame:
  "changes_only (Some p) s (final_dom (removeChild p c s))"
  "keeps_labels s (final_dom (removeChild p c s))"
  by (auto simp: removeChild_def changes_only_def keeps_labels_def node_at_def nth_list_update
      split: option.splits dnode.splits if_splits)

lemma remove_children_while_frame:
  "changes_only parent s (final_dom (remove_children_while parent s))
   \<and> keeps_labels s (final_dom (remove_children_while parent s))"
proof (induction parent s rule: remove_children_while.induct)
  case (1 parent s)
  show ?case
  proof (cases parent)
    case None
    then show ?thesis
      by (subst (1 2) remove_children_while.simps) (simp add: changes_only_refl keeps_labels_refl)
  next
    case (Some p)
    show ?thesis
    proof (cases "firstChild p s")
      case None
      then show ?thesis using Some
        by (subst (1 2) remove_children_while.simps) (simp add: changes_only_refl keeps_labels_refl)
    next
      case (Some c)
      note fc = this
      show ?thesis
      proof (cases "removeChild p c s")
        case (Thrown e s1)
        then show ?thesis using \<open>parent = Some p\<close> fc removeChild_frame[where p=p and s=s and c=c]
          by (subst (1 2) remove_children_while.simps) simp
      next
        case (Returned u s1)
        have "changes_only parent s1 (final_dom (remove_children_while parent s1))
          \<and> keeps_labels s1 (final_dom (remove_children_while parent s1))"
          by (rule "1.IH"[OF \<open>parent = Some p\<close> fc Returned])
        moreover have "changes_only parent s s1" "keeps_labels s s1"
          using removeChild_frame[where p=p and s=s and c=c] Returned \<open>parent = Some p\<close> by simp_all
        ultimately have "changes_only parent s (final_dom (remove_children_while parent s1))
          \<and> keeps_labels s (final_dom (remove_children_while parent s1))"
          by (blast intro: changes_only_trans keeps_labels_trans)
        then show ?thesis using \<open>parent = Some p\<close> fc Returned
          by (subst (1 2) remove_children_while.simps) simp
      qed
    qed
  qed
qed

lemma reRenderElement_frame:
  "changes_only parent s (final_dom (reRenderElement v parent s))
   \<and> keeps_labels s (final_dom (reRenderElement v parent s))"
proof (cases "remove_children_while parent s")
  case (Thrown e s1)
  then show ?thesis using remove_children_while_frame[of parent s]
    by (simp add: reRenderElement_def)
next
  case (Returned u s1)
  then have a: "changes_only parent s s1" "keeps_labels s s1"
    using remove_children_while_frame[of parent s] by simp_all
  have b: "changes_only parent s1 (final_dom (renderVDomToDom v parent s1))"
    "keeps_labels s1 (final_dom (renderVDomToDom v parent s1))"
    using render_frame(1)[of parent s1 v] by simp_all
  have "final_dom (reRenderElement v parent s) = final_dom (renderVDomToDom v parent s1)"
    using Returned by (cases "renderVDomToDom v parent s1") (simp_all add: reRenderElement_def)
  then show ?thesis using a b by (auto intro: changes_only_trans keeps_labels_trans)
qed

lemma clear_innerHTML_frame:
  "changes_only parent s (final_dom (clear_innerHTML parent s))"
  "keeps_labels s (final_dom (clear_innerHTML parent s))"
  by (auto simp: clear_innerHTML_def changes_only_def keeps_labels_def node_at_def nth_list_update
      split: option.splits dnode.splits if_splits)

lemma replace_firstChild_frame:
  "changes_only parent s (final_dom (replace_firstChild parent n s))"
  "keeps_labels s (final_dom (replace_firstChild parent n s))"
  by (auto simp: replace_firstChild_def replaceChild_def changes_only_def keeps_labels_def
      node_at_def nth_list_update split: option.splits dnode.splits if_splits)

lemma replace_firstChild_undefined:
  "replace_firstChild parent None s = Thrown TypeError s"
  by (simp add: replace_firstChild_def replaceChild_def split: option.splits)

lemma diffAndUpdate_tag_change:
  assumes "ty \<noteq> ty'"
  shows "\<exists>e s'. diffAndUpdate updateAttributes (VElem i ty ps ch) (VElem j ty' ps' ch') parent s
            = Thrown e s' \<and> changes_only None s s'"
proof (cases "renderVDomToDom (VElem j ty' ps' ch') None s")
  case (Thrown e s1)
  then show ?thesis
    using assms render_frame(1)[where v="VElem j ty' ps' ch'" and container=None and s=s]
    by (simp add: diffAndUpdate.simps)
next
  case (Returned r s1)
  then have "r = None" by (rule render_returns_undefined)
  then show ?thesis
    using assms Returned render_frame(1)[where v="VElem j ty' ps' ch'" and container=None and s=s]
    by (simp add: diffAndUpdate.simps replace_firstChild_undefined)
qed

text \<open>
  With \<^verbatim>\<open>updateAttributes\<close> unbound, the branch for two elements of the same tag throws
  before it touches the store, whatever the children are.
\<close>

lemma diffAndUpdate_same_tag_unbound:
  "diffAndUpdate None (VElem i ty ps ch) (VElem j ty ps' ch') (Some p) s = Thrown ReferenceError s"
  by (simp add: diffAndUpdate.simps getDomElementFromVNode_def)

lemma diffAndUpdate_unbound_frame:
  "changes_only parent s (final_dom (diffAndUpdate None previous current parent s))
   \<and> keeps_labels s (final_dom (diffAndUpdate None previous current parent s))"
proof (cases "current = VNull")
  case True
  then show ?thesis
    using clear_innerHTML_frame[where parent=parent and s=s] by (simp add: diffAndUpdate.simps)
next
  case notnull: False
  show ?thesis
  proof (cases "isTextNode previous \<or> isTextNode current")
    case True
    let ?s1 = "s @ [Text (to_string current)]"
    have "changes_only parent s (final_dom (replace_firstChild parent (Some (length s)) ?s1))"
      "keeps_labels s (final_dom (replace_firstChild parent (Some (length s)) ?s1))"
      using replace_firstChild_frame[where parent=parent and s="?s1" and n="Some (length s)"]
        changes_only_append[of parent s "[Text (to_string current)]"]
        keeps_labels_append[of s "[Text (to_string current)]"]
      by (blast intro: changes_only_trans keeps_labels_trans)+
    then show ?thesis using notnull True
      by (simp add: diffAndUpdate.simps createTextNode_def changes_only_refl keeps_labels_refl)
  next
    case nottext: False
    show ?thesis
    proof (cases previous)
      case (VElem i ty ps ch)
      note prev = this
      show ?thesis
      proof (cases current)
        case (VElem j ty' ps' ch')
        show ?thesis
        proof (cases "ty = ty'")
          case True
          then show ?thesis using prev VElem
            by (cases parent)
              (simp_all add: diffAndUpdate.simps getDomElementFromVNode_def
                changes_only_refl keeps_labels_refl)
        next
          case False
          then obtain e s' where "diffAndUpdate None previous current parent s = Thrown e s'"
            "changes_only None s s'"
            using diffAndUpdate_tag_change[of ty ty' None i ps ch j ps' ch' parent s] prev VElem
            by auto
          moreover have "keeps_labels s s'"
            using \<open>changes_only None s s'\<close> by (auto simp: changes_only_def keeps_labels_def)
          ultimately show ?thesis by (simp add: changes_only_None)
        qed
      qed (use prev notnull nottext in
          \<open>simp_all add: diffAndUpdate.simps changes_only_refl keeps_labels_refl\<close>)
    qed (use notnull nottext in
        \<open>simp_all add: diffAndUpdate.simps changes_only_refl keeps_labels_refl\<close>)
  qed
qed

subsection \<open>Diff and patch changes the subtree of the container only\<close>

lemma shrinks_refl: "shrinks s s"
  by (simp add: shrinks_def)

lemma shrinks_trans: "shrinks s s1 \<Longrightarrow> shrinks s1 s2 \<Longrightarrow> shrinks s s2"
  unfolding shrinks_def by (meson le_trans less_le_trans)

lemma trancl_shrinks:
  assumes "shrinks s s1" and "(a, i) \<in> (child_rel s1)\<^sup>+" and "i < length s"
  shows "(a, i) \<in> (child_rel s)\<^sup>+"
  using assms(2,3)
proof (induction rule: trancl_induct)
  case (base c)
  then show ?case using assms(1) by (auto simp: shrinks_def)
next
  case (step b c)
  then have e: "(b, c) \<in> child_rel s" using assms(1) by (auto simp: shrinks_def)
  then have "b < length s" by (simp add: child_rel_def)
  then have "(a, b) \<in> (child_rel s)\<^sup>+" using step by simp
  then show ?case using e by (rule trancl_into_trancl)
qed

lemma changes_only_within: "changes_only container s s' \<Longrightarrow> within_subtree container s s'"
  by (auto simp: changes_only_def within_subtree_def)

lemma within_subtree_trans:
  assumes "within_subtree t s s1" and "within_subtree t s1 s2" and "shrinks s s1"
  shows "within_subtree t s s2"
  unfolding within_subtree_def
proof (intro conjI allI impI)
  show "length s \<le> length s2" using assms(1,2) by (simp add: within_subtree_def)
next
  fix i assume i: "i < length s" and ne: "s2 ! i \<noteq> s ! i"
  show "\<exists>p. t = Some p \<and> (i = p \<or> (p, i) \<in> (child_rel s)\<^sup>+)"
  proof (cases "s1 ! i = s ! i")
    case False
    then show ?thesis using assms(1) i by (simp add: within_subtree_def)
  next
    case True
    then have "s2 ! i \<noteq> s1 ! i" using ne by simp
    moreover have "i < length s1" using i assms(1) by (simp add: within_subtree_def)
    ultimately obtain p where p: "t = Some p" "i = p \<or> (p, i) \<in> (child_rel s1)\<^sup>+"
      using assms(2) by (auto simp: within_subtree_def)
    then show ?thesis using trancl_shrinks[OF assms(3) _ i] by auto
  qed
qed

lemma same_children_refl: "same_children s s"
  by (simp add: same_children_def)

lemma same_children_trans: "same_children s s1 \<Longrightarrow> same_children s1 s2 \<Longrightarrow> same_children s s2"
  by (simp add: same_children_def)

lemma same_children_child_rel: "same_children s s' \<Longrightarrow> child_rel s' = child_rel s"
  by (auto simp: same_children_def child_rel_def)

lemma setAttribute_children: "same_children s (final_dom (setAttribute el k v s))"
  by (auto simp: setAttribute_def same_children_def node_at_def nth_list_update
      split: option.splits dnode.splits if_splits)

lemma removeAttribute_children: "same_children s (final_dom (removeAttribute el k s))"
  by (auto simp: removeAttribute_def same_children_def node_at_def nth_list_update
      split: option.splits dnode.splits if_splits)

lemma remove_forEach_children: "same_children s (final_dom (remove_forEach el new ks s))"
proof (induction ks arbitrary: s)
  case Nil
  show ?case by (simp add: same_children_refl)
next
  case (Cons k ks)
  show ?case
  proof (cases new)
    case None
    then show ?thesis by (simp add: same_children_refl)
  next
    case (Some n)
    show ?thesis
    proof (cases "js_in k n")
      case True
      then show ?thesis using Some Cons.IH by simp
    next
      case False
      show ?thesis
      proof (cases "removeAttribute el k s")
        case (Returned u s1)
        then have "same_children s s1" using removeAttribute_children[of s el k] by simp
        then show ?thesis
          using Some False Returned Cons.IH[of s1] by (auto intro: same_children_trans)
      next
        case (Thrown e s1)
        then have "same_children s s1" using removeAttribute_children[of s el k] by simp
        then show ?thesis using Some False Thrown by simp
      qed
    qed
  qed
qed

lemma set_forEach_children: "same_children s (final_dom (set_forEach el old new s))"
proof (induction new arbitrary: s)
  case Nil
  show ?case by (simp add: same_children_refl)
next
  case (Cons p new)
  obtain k v where p: "p = (k, v)" by (cases p)
  show ?case
  proof (cases "js_get old k \<noteq> JString v")
    case False
    then show ?thesis using p Cons.IH by simp
  next
    case True
    show ?thesis
    proof (cases "setAttribute el k v s")
      case (Returned u s1)
      then have "same_children s s1" using setAttribute_children[of s el k v] by simp
      then show ?thesis
        using p True Returned Cons.IH[of s1] by (auto intro: same_children_trans)
    next
      case (Thrown e s1)
      then have "same_children s s1" using setAttribute_children[of s el k v] by simp
      then show ?thesis using p True Thrown by simp
    qed
  qed
qed

lemma updateDomAttributes_children:
  "same_children s (final_dom (updateDomAttributes el old new s))"
proof (cases old)
  case None
  then show ?thesis by (simp add: updateDomAttributes_def same_children_refl)
next
  case (Some ol)
  show ?thesis
  proof (cases "remove_forEach el new (map fst ol) s")
    case (Thrown e s1)
    then show ?thesis
      using Some remove_forEach_children[of s el new "map fst ol"]
      by (simp add: updateDomAttributes_def)
  next
    case (Returned u s1)
    then have a: "same_children s s1"
      using remove_forEach_children[of s el new "map fst ol"] by simp
    show ?thesis
    proof (cases new)
      case None
      then show ?thesis using Some Returned a by (simp add: updateDomAttributes_def)
    next
      case (Some n)
      then show ?thesis
        using \<open>old = Some ol\<close> Returned a set_forEach_children[of s1 el ol n]
        by (auto simp: updateDomAttributes_def intro: same_children_trans)
    qed
  qed
qed

lemma same_children_shrinks: "same_children s s' \<Longrightarrow> shrinks s s'"
  by (auto simp: shrinks_def same_children_child_rel) (simp add: same_children_def)

lemma clear_innerHTML_shrinks: "shrinks s (final_dom (clear_innerHTML parent s))"
  by (auto simp: clear_innerHTML_def shrinks_def child_rel_def node_at_def nth_list_update
      split: option.splits dnode.splits if_splits)

lemma set_replace_first: "set (replace_first old new cs) \<subseteq> insert new (set cs)"
  by (induction cs) auto

lemma replace_firstChild_new_text_shrinks:
  assumes "replace_firstChild parent (Some (length s)) (s @ [Text x]) = Returned u s'"
  shows "shrinks s s'"
proof -
  obtain p where p: "parent = Some p"
    using assms by (cases parent) (auto simp: replace_firstChild_def)
  let ?s1 = "s @ [Text x]"
  from assms p obtain tag as cs old where
    n: "p < length ?s1" "?s1 ! p = Element tag as cs"
    and s': "s' = ?s1[p := Element tag as (replace_first old (length s) cs)]"
    by (auto simp: replace_firstChild_def replaceChild_def node_at_def
        split: option.splits dnode.splits if_splits)
  have pl: "p < length s" using n by (cases "p = length s") (auto simp: nth_append)
  have sp: "s ! p = Element tag as cs" using n pl by (simp add: nth_append)
  show ?thesis
    unfolding shrinks_def
  proof (intro conjI allI impI)
    show "length s \<le> length s'" using s' by simp
  next
    fix i c assume e: "(i, c) \<in> child_rel s'" and c: "c < length s"
    show "(i, c) \<in> child_rel s"
    proof (cases "i = p")
      case True
      then have "c \<in> set (replace_first old (length s) cs)"
        using e s' n pl by (simp add: child_rel_def)
      then have "c \<in> set cs" using set_replace_first[of old "length s" cs] c by auto
      then show ?thesis using True pl sp by (simp add: child_rel_def)
    next
      case False
      then have "i < Suc (length s)" "c \<in> set (children_of (?s1 ! i))"
        using e s' by (auto simp: child_rel_def nth_list_update)
      then show ?thesis
        by (cases "i = length s") (auto simp: child_rel_def nth_append)
    qed
  qed
qed


lemma firstChild_child_rel: "firstChild p s = Some q \<Longrightarrow> (p, q) \<in> child_rel s"
  by (auto simp: firstChild_def child_rel_def node_at_def
      split: option.splits dnode.splits list.splits if_splits)

lemma within_subtree_refl: "within_subtree t s s"
  by (simp add: within_subtree_def)

lemma new_text_replace_frame:
  "changes_only parent s (final_dom (replace_firstChild parent (Some (length s)) (s @ [Text x])))"
  using replace_firstChild_frame(1)[where parent=parent and s="s @ [Text x]" and n="Some (length s)"]
    changes_only_append[of parent s "[Text x]"]
  by (blast intro: changes_only_trans)

lemma within_via_firstChild:
  assumes "changes_only (firstChild p s) s s2" and "same_children s s2"
    and "within_subtree (firstChild p s) s2 fin"
  shows "within_subtree (Some p) s fin"
  unfolding within_subtree_def
proof (intro conjI allI impI)
  show "length s \<le> length fin"
    using assms(2,3) by (simp add: same_children_def within_subtree_def)
next
  fix i assume i: "i < length s" and ne: "fin ! i \<noteq> s ! i"
  have rel: "child_rel s2 = child_rel s" by (rule same_children_child_rel[OF assms(2)])
  have "(p, i) \<in> (child_rel s)\<^sup>+"
  proof (cases "s2 ! i = s ! i")
    case False
    then have "firstChild p s = Some i" using assms(1) i by (auto simp: changes_only_def)
    then show ?thesis by (auto dest: firstChild_child_rel)
  next
    case True
    then have "fin ! i \<noteq> s2 ! i" using ne by simp
    moreover have "i < length s2" using i assms(2) by (simp add: same_children_def)
    ultimately obtain q where q: "firstChild p s = Some q" "i = q \<or> (q, i) \<in> (child_rel s)\<^sup>+"
      using assms(3) rel by (auto simp: within_subtree_def)
    have "(p, q) \<in> child_rel s" using q(1) by (rule firstChild_child_rel)
    then show ?thesis using q(2) by (auto intro: trancl_into_trancl2)
  qed
  then show "\<exists>q. Some p = Some q \<and> (i = q \<or> (q, i) \<in> (child_rel s)\<^sup>+)" by simp
qed

lemma diffAndUpdate_not_elements:
  assumes "current \<noteq> VNull" and "\<not> (isTextNode previous \<or> isTextNode current)"
    and "(\<forall>i t p c. previous \<noteq> VElem i t p c) \<or> (\<forall>i t p c. current \<noteq> VElem i t p c)"
  shows "diffAndUpdate upd previous current parent s = Thrown TypeError s"
  using assms
  by (cases previous; cases current) (simp_all add: diffAndUpdate.simps)


lemma diff_frame:
  "upd = None \<or> upd = Some updateDomAttributes \<Longrightarrow>
     within_subtree parent s (final_dom (diffAndUpdate upd previous current parent s))
     \<and> (\<forall>u s'. diffAndUpdate upd previous current parent s = Returned u s' \<longrightarrow> shrinks s s')"
  "upd = None \<or> upd = Some updateDomAttributes \<Longrightarrow>
     within_subtree d s (final_dom (diff_forEach upd pch cs idx d s))
     \<and> (\<forall>u s'. diff_forEach upd pch cs idx d s = Returned u s' \<longrightarrow> shrinks s s')"
proof (induction upd previous current parent s and upd pch cs idx d s
    rule: diffAndUpdate_diff_forEach.induct)
  case (1 upd previous current parent s)
  let ?m = "diffAndUpdate upd previous current parent s"
  show ?case
  proof (cases "current = VNull")
    case True
    then have "?m = clear_innerHTML parent s" by (simp add: diffAndUpdate.simps)
    then show ?thesis
      using clear_innerHTML_frame(1)[of parent s] clear_innerHTML_shrinks[of s parent]
      by (cases "clear_innerHTML parent s") (auto dest: changes_only_within)
  next
    case notnull: False
    show ?thesis
    proof (cases "isTextNode previous \<or> isTextNode current")
      case True
      show ?thesis
      proof (cases "strict_neq previous current")
        case False
        then have "?m = Returned () s" using notnull True by (simp add: diffAndUpdate.simps)
        then show ?thesis by (simp add: within_subtree_refl shrinks_refl)
      next
        case neq: True
        let ?r = "replace_firstChild parent (Some (length s)) (s @ [Text (to_string current)])"
        have "?m = ?r" using notnull True neq by (simp add: diffAndUpdate.simps createTextNode_def)
        then show ?thesis
          using new_text_replace_frame[of parent s "to_string current"]
            replace_firstChild_new_text_shrinks[of parent s "to_string current"]
          by (auto dest: changes_only_within)
      qed
    next
      case nottext: False
      show ?thesis
      proof (cases previous)
        case (VElem i ty ps ch)
        note prev = this
        show ?thesis
        proof (cases current)
          case (VElem j ty' ps' ch')
          note cur = this
          show ?thesis
          proof (cases "ty = ty'")
            case False
            then obtain e s' where "?m = Thrown e s'" "changes_only None s s'"
              using diffAndUpdate_tag_change[of ty ty' upd i ps ch j ps' ch' parent s] prev cur
              by auto
            then have "?m = Thrown e s'" "within_subtree parent s s'"
              by (simp_all add: changes_only_within[OF changes_only_None])
            then show ?thesis by simp
          next
            case same: True
            show ?thesis
            proof (cases parent)
              case None
              then have "?m = Thrown TypeError s" using prev cur same
                by (simp add: diffAndUpdate.simps getDomElementFromVNode_def)
              then show ?thesis by (simp add: within_subtree_refl)
            next
              case (Some p)
              note par = this
              have gd: "getDomElementFromVNode previous parent s = Returned (firstChild p s) s"
                using par by (simp add: getDomElementFromVNode_def)
              from "1.prems" show ?thesis
              proof
                assume "upd = None"
                then have "?m = Thrown ReferenceError s" using prev cur same gd
                  by (simp add: diffAndUpdate.simps)
                then show ?thesis by (simp add: within_subtree_refl)
              next
                assume bound: "upd = Some updateDomAttributes"
                let ?d = "firstChild p s"
                let ?a = "updateDomAttributes ?d ps ps' s"
                have fa: "changes_only ?d s (final_dom ?a)" "same_children s (final_dom ?a)"
                  by (rule updateDomAttributes_frame, rule updateDomAttributes_children)
                have wa: "within_subtree (Some p) s (final_dom ?a)"
                  using fa by (rule within_via_firstChild) (rule within_subtree_refl)
                show ?thesis
                proof (cases ?a)
                  case (Thrown e s2)
                  then have "?m = Thrown e s2" using prev cur same gd bound notnull nottext
                    by (simp add: diffAndUpdate.simps)
                  then show ?thesis using wa Thrown par by simp
                next
                  case (Returned u2 s2)
                  note ret = this
                  show ?thesis
                  proof (cases ch')
                    case (ChildString x)
                    then have "?m = Thrown TypeError s2"
                      using prev cur same gd bound notnull nottext ret
                      by (simp add: diffAndUpdate.simps)
                    then show ?thesis using wa ret par by simp
                  next
                    case (ChildArray ccs)
                    let ?f = "diff_forEach upd ch ccs 0 ?d s2"
                    have m: "?m = ?f"
                      using prev cur same gd bound notnull nottext ret ChildArray
                      by (simp add: diffAndUpdate.simps)
                    have ih: "within_subtree ?d s2 (final_dom ?f)
                        \<and> (\<forall>u s'. ?f = Returned u s' \<longrightarrow> shrinks s2 s')"
                    proof -
                      have nn: "\<not> ty \<noteq> ty'" using same by simp
                      show ?thesis
                        by (rule "1.IH"[of i ty ps ch j ty' ps' ch' "firstChild p s" s
                              updateDomAttributes u2 s2 ccs,
                              OF notnull nottext prev cur nn gd bound ret ChildArray "1.prems"])
                    qed
                    have "within_subtree (Some p) s (final_dom ?f)"
                    proof (rule within_via_firstChild)
                      show "changes_only (firstChild p s) s s2" using fa(1) ret by simp
                      show "same_children s s2" using fa(2) ret by simp
                      show "within_subtree (firstChild p s) s2 (final_dom ?f)" using ih by simp
                    qed
                    moreover have "\<forall>u s'. ?f = Returned u s' \<longrightarrow> shrinks s s'"
                    proof (intro allI impI)
                      fix u s' assume "?f = Returned u s'"
                      then have "shrinks s2 s'" using ih by blast
                      moreover have "shrinks s s2"
                        using fa(2) ret by (simp add: same_children_shrinks)
                      ultimately show "shrinks s s'" by (rule shrinks_trans[rotated])
                    qed
                    ultimately show ?thesis using m par by simp
                  qed
                qed
              qed
            qed
          qed
        qed (use diffAndUpdate_not_elements[OF notnull nottext, of upd parent s] in
            \<open>simp_all add: within_subtree_refl\<close>)
      qed (use diffAndUpdate_not_elements[OF notnull nottext, of upd parent s] in
          \<open>simp_all add: within_subtree_refl\<close>)
    qed
  qed
next
  case (2 upd pch idx d s)
  show ?case by (simp add: within_subtree_refl shrinks_refl)
next
  case (3 upd pch child rest idx d s)
  show ?case
  proof (cases "strict_neq child (child_at pch idx)")
    case False
    then show ?thesis using "3.IH"(3)[OF False "3.prems"] by simp
  next
    case True
    let ?m = "diffAndUpdate upd (child_at pch idx) child d s"
    have a: "within_subtree d s (final_dom ?m)" "\<forall>u s'. ?m = Returned u s' \<longrightarrow> shrinks s s'"
      using "3.IH"(1)[OF True "3.prems"] by simp_all
    show ?thesis
    proof (cases ?m)
      case (Thrown e s1)
      then show ?thesis using a True by simp
    next
      case (Returned u s1)
      let ?f = "diff_forEach upd pch rest (Suc idx) d s1"
      have b: "within_subtree d s1 (final_dom ?f)" "\<forall>u s'. ?f = Returned u s' \<longrightarrow> shrinks s1 s'"
        using "3.IH"(2)[OF True Returned "3.prems"] by simp_all
      have sh: "shrinks s s1" using a(2) Returned by simp
      have "within_subtree d s (final_dom ?f)"
      proof (rule within_subtree_trans[where ?s1.0=s1])
        show "within_subtree d s s1" using a(1) Returned by simp
        show "within_subtree d s1 (final_dom ?f)" by (rule b(1))
        show "shrinks s s1" by (rule sh)
      qed
      moreover have "\<forall>u s'. ?f = Returned u s' \<longrightarrow> shrinks s s'"
      proof (intro allI impI)
        fix u' s' assume "?f = Returned u' s'"
        then have "shrinks s1 s'" using b(2) by blast
        with sh show "shrinks s s'" by (rule shrinks_trans)
      qed
      ultimately show ?thesis using True Returned by simp
    qed
  qed
qed

subsection \<open>The effect of the attribute diff on an element\<close>

lemma remove_forEach_effect:
  assumes "r < length s" and "s ! r = Element tag as cs"
  shows "\<exists>as'. remove_forEach (Some r) (Some new) ks s = Returned () (s[r := Element tag as' cs])
      \<and> (\<forall>k. map_of as' k = (if k \<in> set ks \<and> \<not> js_in k new then None else map_of as k))"
  using assms
proof (induction ks arbitrary: s as)
  case Nil
  then have "s[r := Element tag as cs] = s" by (metis list_update_id)
  then show ?case by (intro exI[of _ as]) simp
next
  case (Cons k ks)
  show ?case
  proof (cases "js_in k new")
    case True
    then show ?thesis using Cons.IH[OF Cons.prems] by auto
  next
    case False
    let ?s1 = "s[r := Element tag (AList.delete k as) cs]"
    have step: "removeAttribute (Some r) k s = Returned () ?s1"
      using Cons.prems by (simp add: removeAttribute_def node_at_def)
    have "\<exists>as'. remove_forEach (Some r) (Some new) ks ?s1 = Returned () (?s1[r := Element tag as' cs])
      \<and> (\<forall>k'. map_of as' k' = (if k' \<in> set ks \<and> \<not> js_in k' new then None
                                  else map_of (AList.delete k as) k'))"
      by (rule Cons.IH) (use Cons.prems in auto)
    then show ?thesis using step False
      by (auto simp: AList.delete_conv)
  qed
qed

lemma set_forEach_effect:
  assumes "r < length s" and "s ! r = Element tag as cs" and "distinct (map fst new)"
  shows "\<exists>as'. set_forEach (Some r) old new s = Returned () (s[r := Element tag as' cs])
      \<and> (\<forall>k. map_of as' k =
            (case map_of new k of
               Some v \<Rightarrow> if js_get old k \<noteq> JString v then Some v else map_of as k
             | None \<Rightarrow> map_of as k))"
  using assms
proof (induction new arbitrary: s as)
  case Nil
  then have "s[r := Element tag as cs] = s" by (metis list_update_id)
  then show ?case by (intro exI[of _ as]) simp
next
  case (Cons p new)
  obtain k v where p: "p = (k, v)" by (cases p)
  have fresh: "map_of new k = None" and dist: "distinct (map fst new)"
    using Cons.prems(3) p by (auto simp: map_of_eq_None_iff)
  show ?case
  proof (cases "js_get old k \<noteq> JString v")
    case False
    obtain as' where "set_forEach (Some r) old new s = Returned () (s[r := Element tag as' cs])"
      and m: "\<forall>k'. map_of as' k' =
            (case map_of new k' of
               Some v' \<Rightarrow> if js_get old k' \<noteq> JString v' then Some v' else map_of as k'
             | None \<Rightarrow> map_of as k')"
      using Cons.IH[OF Cons.prems(1,2) dist] by blast
    then show ?thesis using False p fresh
      by (intro exI[of _ as']) (auto split: option.splits)
  next
    case True
    let ?s1 = "s[r := Element tag (AList.update k v as) cs]"
    have step: "setAttribute (Some r) k v s = Returned () ?s1"
      using Cons.prems by (simp add: setAttribute_def node_at_def)
    have "\<exists>as'. set_forEach (Some r) old new ?s1 = Returned () (?s1[r := Element tag as' cs])
      \<and> (\<forall>k'. map_of as' k' =
            (case map_of new k' of
               Some v' \<Rightarrow> if js_get old k' \<noteq> JString v' then Some v' else map_of (AList.update k v as) k'
             | None \<Rightarrow> map_of (AList.update k v as) k'))"
      by (rule Cons.IH) (use Cons.prems dist in auto)
    then obtain as' where r: "set_forEach (Some r) old new ?s1 = Returned () (?s1[r := Element tag as' cs])"
      and m: "\<forall>k'. map_of as' k' =
            (case map_of new k' of
               Some v' \<Rightarrow> if js_get old k' \<noteq> JString v' then Some v' else map_of (AList.update k v as) k'
             | None \<Rightarrow> map_of (AList.update k v as) k')"
      by blast
    show ?thesis using step True p fresh r m
      by (intro exI[of _ as']) (auto simp: AList.update_conv' split: option.splits)
  qed
qed

text \<open>
  The attributes of the element after the attribute diff, for any attributes it had before:
  a name that is an own key of \<open>oldProps\<close> and that \<^verbatim>\<open>in\<close> does not find in \<open>newProps\<close> is
  removed; a name that \<open>newProps\<close> maps to a value other than the one \<open>oldProps\<close> gives it is
  set to that value; every other attribute is left as it was.
\<close>

lemma updateDomAttributes_effect:
  assumes "r < length s" and "s ! r = Element tag as cs" and "distinct (map fst new)"
  shows "\<exists>as'. updateDomAttributes (Some r) (Some old) (Some new) s
            = Returned () (s[r := Element tag as' cs])
      \<and> (\<forall>k. map_of as' k =
            (if k \<in> set (map fst old) \<and> \<not> js_in k new then None
             else case map_of new k of
               Some v \<Rightarrow> if js_get old k \<noteq> JString v then Some v else map_of as k
             | None \<Rightarrow> map_of as k))"
proof -
  obtain as1 where r1: "remove_forEach (Some r) (Some new) (map fst old) s
        = Returned () (s[r := Element tag as1 cs])"
    and m1: "\<forall>k. map_of as1 k = (if k \<in> set (map fst old) \<and> \<not> js_in k new then None else map_of as k)"
    using remove_forEach_effect[OF assms(1,2)] by blast
  let ?s1 = "s[r := Element tag as1 cs]"
  obtain as2 where r2: "set_forEach (Some r) old new ?s1 = Returned () (?s1[r := Element tag as2 cs])"
    and m2: "\<forall>k. map_of as2 k =
            (case map_of new k of
               Some v \<Rightarrow> if js_get old k \<noteq> JString v then Some v else map_of as1 k
             | None \<Rightarrow> map_of as1 k)"
    using set_forEach_effect[of r ?s1 tag as1 cs new old] assms by auto
  have notin: "\<And>k v. map_of new k = Some v \<Longrightarrow> js_in k new"
    by (auto simp: js_in_def dest: map_of_SomeD intro: rev_image_eqI)
  show ?thesis
    using r1 r2 m1 m2 notin
    by (intro exI[of _ as2]) (auto simp: updateDomAttributes_def split: option.splits)
qed

subsection \<open>Frames of the operations over the heap\<close>

lemma objects_kept_refl: "objects_kept st st"
  by (simp add: objects_kept_def)

lemma objects_kept_same: "objects st' = objects st \<Longrightarrow> objects_kept st st'"
  by (simp add: objects_kept_def objects_def)

lemma take_prefix_trans:
  assumes "take (length xs) ys = xs" and "take (length ys) zs = ys"
  shows "take (length xs) zs = xs"
proof -
  have "length (take (length xs) ys) = length xs" using assms(1) by simp
  then have le: "length xs \<le> length ys" by simp
  have "take (length xs) zs = take (length xs) (take (length ys) zs)"
    using le by (simp add: min_def)
  then show ?thesis using assms by simp
qed

lemma objects_kept_trans:
  assumes "objects_kept st st1" and "objects_kept st1 st2"
  shows "objects_kept st st2"
  using assms unfolding objects_kept_def by (blast intro: take_prefix_trans)

lemma frame_h_refl: "frame_h t st st"
  by (simp add: frame_h_def objects_kept_refl changes_only_refl keeps_labels_refl)

lemma frame_h_trans: "frame_h t st st1 \<Longrightarrow> frame_h t st1 st2 \<Longrightarrow> frame_h t st st2"
  unfolding frame_h_def
  by (blast intro: objects_kept_trans changes_only_trans keeps_labels_trans)

lemma frame_h_fresh:
  assumes "frame_h t st st1" and "frame_h (Some e) st1 st2" and "length (live_nodes st) \<le> e"
  shows "frame_h t st st2"
  using assms unfolding frame_h_def
  by (blast intro: objects_kept_trans changes_only_fresh keeps_labels_trans)

lemma frame_h_fresh_attrs:
  assumes "frame_h t st st1" and "objects st2 = objects st1"
    and "changes_only (Some e) (live_nodes st1) (live_nodes st2)" and "length (live_nodes st) \<le> e"
  shows "frame_h t st st2"
  using assms unfolding frame_h_def
  by (auto intro: changes_only_fresh keeps_labels_fresh simp: objects_kept_def objects_def)

lemma frame_h_None: "frame_h None st st' \<Longrightarrow> frame_h t st st'"
  by (simp add: frame_h_def changes_only_None)

lemma host_objects [simp]: "objects (final_state (host call st)) = objects st"
  by (simp add: host_def objects_def split: outcome.splits)

lemma host_live_nodes [simp]:
  "live_nodes (final_state (host call st)) = final_dom (call (live_nodes st))"
  by (simp add: host_def split: outcome.splits)

lemma host_create_objects [simp]: "objects (snd (host_create call st)) = objects st"
  by (simp add: host_create_def objects_def split: prod.splits)

lemma host_create_live_nodes [simp]:
  "live_nodes (snd (host_create call st)) = snd (call (live_nodes st))"
  by (simp add: host_create_def split: prod.splits)

lemma host_create_fst [simp]: "fst (host_create call st) = fst (call (live_nodes st))"
  by (simp add: host_create_def split: prod.splits)

lemma host_frame_h:
  assumes "changes_only t (live_nodes st) (final_dom (call (live_nodes st)))"
    and "keeps_labels (live_nodes st) (final_dom (call (live_nodes st)))"
  shows "frame_h t st (final_state (host call st))"
  using assms by (simp add: frame_h_def objects_kept_same)

lemma remove_forEach_h_frame:
  "objects (final_state (remove_forEach_h el new ks st)) = objects st
   \<and> changes_only el (live_nodes st) (live_nodes (final_state (remove_forEach_h el new ks st)))"
proof (induction ks arbitrary: st)
  case Nil
  show ?case by (simp add: changes_only_refl)
next
  case (Cons k ks)
  show ?case
  proof (cases "props_at st new")
    case None
    then show ?thesis by (simp add: changes_only_refl)
  next
    case (Some n)
    show ?thesis
    proof (cases "js_in k n")
      case True
      then show ?thesis using Some Cons.IH by simp
    next
      case False
      let ?h = "host (removeAttribute el k) st"
      have a: "objects (final_state ?h) = objects st"
        "changes_only el (live_nodes st) (live_nodes (final_state ?h))"
        by (simp_all add: removeAttribute_frame)
      show ?thesis
      proof (cases ?h)
        case (Raised e st1)
        then show ?thesis using Some False a by simp
      next
        case (Done u st1)
        then show ?thesis
          using Some False a Cons.IH[of st1] by (auto intro: changes_only_trans)
      qed
    qed
  qed
qed

lemma set_forEach_h_frame:
  "objects (final_state (set_forEach_h el old new st)) = objects st
   \<and> changes_only el (live_nodes st) (live_nodes (final_state (set_forEach_h el old new st)))"
proof (induction new arbitrary: st)
  case Nil
  show ?case by (simp add: changes_only_refl)
next
  case (Cons p new)
  obtain k v where p: "p = (k, v)" by (cases p)
  show ?case
  proof (cases "props_at st old")
    case None
    then show ?thesis using p by (simp add: changes_only_refl)
  next
    case (Some ol)
    show ?thesis
    proof (cases "js_get ol k \<noteq> JString v")
      case False
      then show ?thesis using p Some Cons.IH by simp
    next
      case True
      let ?h = "host (setAttribute el k v) st"
      have a: "objects (final_state ?h) = objects st"
        "changes_only el (live_nodes st) (live_nodes (final_state ?h))"
        by (simp_all add: setAttribute_frame)
      show ?thesis
      proof (cases ?h)
        case (Raised e st1)
        then show ?thesis using p Some True a by simp
      next
        case (Done u st1)
        then show ?thesis
          using p Some True a Cons.IH[of st1] by (auto intro: changes_only_trans)
      qed
    qed
  qed
qed

lemma updateDomAttributes_h_frame:
  "objects (final_state (updateDomAttributes_h el old new st)) = objects st
   \<and> changes_only el (live_nodes st) (live_nodes (final_state (updateDomAttributes_h el old new st)))"
proof (cases "props_at st old")
  case None
  then show ?thesis by (simp add: updateDomAttributes_h_def changes_only_refl)
next
  case (Some ol)
  let ?r = "remove_forEach_h el new (map fst ol) st"
  have a: "objects (final_state ?r) = objects st"
    "changes_only el (live_nodes st) (live_nodes (final_state ?r))"
    using remove_forEach_h_frame[of el new "map fst ol" st] by simp_all
  show ?thesis
  proof (cases ?r)
    case (Raised e st1)
    then show ?thesis using Some a by (simp add: updateDomAttributes_h_def)
  next
    case (Done u st1)
    show ?thesis
    proof (cases "props_at st1 new")
      case None
      then show ?thesis using Some Done a by (simp add: updateDomAttributes_h_def)
    next
      case (Some n)
      then show ?thesis
        using \<open>props_at st old = Some ol\<close> Done a set_forEach_h_frame[of el old n st1]
        by (auto simp: updateDomAttributes_h_def intro: changes_only_trans)
    qed
  qed
qed

lemma append_to_container_h_frame:
  "frame_h container st (final_state (append_to_container_h container r st))"
proof (cases container)
  case None
  then show ?thesis by (simp add: append_to_container_h_def frame_h_refl)
next
  case (Some c)
  have "frame_h (Some c) st (final_state (host (appendChild c r) st))"
    using append_to_container_frame[where container="Some c" and s="live_nodes st" and r=r]
    by (intro host_frame_h) (simp_all add: append_to_container_def split: outcome.splits)
  then show ?thesis using Some
    by (cases "host (appendChild c r) st") (simp_all add: append_to_container_h_def)
qed

lemma new_live_node_frame_h:
  "frame_h t st (snd (host_create (createTextNode x) st))"
  "frame_h t st (snd (host_create (createElement ty) st))"
  by (simp_all add: frame_h_def objects_kept_same createTextNode_def createElement_def
      changes_only_append keeps_labels_append)

lemma new_props_object_frame_h: "frame_h t st (snd (new_props_object st))"
  by (simp add: frame_h_def new_props_object_def objects_kept_def changes_only_refl
      keeps_labels_refl)

lemma new_props_object_live_nodes [simp]: "live_nodes (snd (new_props_object st)) = live_nodes st"
  by (simp add: new_props_object_def)

lemma render_forEach_h_frame:
  assumes IH: "\<And>v c st. frame_h c st (final_state (renderVDomToDom_h depth v c st))"
  shows "frame_h (Some d) st (final_state (render_forEach_h depth a i n d st))"
proof (induction n arbitrary: i st)
  case 0
  show ?case by (simp add: frame_h_refl)
next
  case (Suc n)
  show ?case
  proof (cases "element_at st a i")
    case None
    then show ?thesis using Suc.IH by simp
  next
    case (Some child)
    let ?m = "renderVDomToDom_h depth child (Some d) st"
    have a: "frame_h (Some d) st (final_state ?m)" by (rule IH)
    show ?thesis
    proof (cases ?m)
      case (Raised e st1)
      then show ?thesis using Some a by simp
    next
      case (Done u st1)
      have "frame_h (Some d) st1 (final_state (render_forEach_h depth a (Suc i) n d st1))"
        by (rule Suc.IH)
      then show ?thesis using Some Done a by (auto intro: frame_h_trans)
    qed
  qed
qed

lemma renderVDomToDom_h_frame:
  "frame_h c st (final_state (renderVDomToDom_h depth v c st))"
proof (induction depth arbitrary: v c st)
  case 0
  show ?case by (simp add: frame_h_refl)
next
  case (Suc depth)
  let ?m = "renderVDomToDom_h (Suc depth) v c st"
  show ?case
  proof (cases "isTextNode_h v")
    case True
    obtain el st1 where hc: "host_create (createTextNode (to_string_h v)) st = (el, st1)"
      by (cases "host_create (createTextNode (to_string_h v)) st")
    have "frame_h c st st1"
      using new_live_node_frame_h(1)[of c st "to_string_h v"] hc by simp
    moreover have "frame_h c st1 (final_state (append_to_container_h c el st1))"
      by (rule append_to_container_h_frame)
    ultimately show ?thesis using True hc by (auto intro: frame_h_trans)
  next
    case nottext: False
    show ?thesis
    proof (cases "node_fields st v")
      case None
      then show ?thesis using nottext by (simp add: frame_h_refl)
    next
      case (Some f)
      obtain ty ps0 ch0 where f: "f = NodeObject ty ps0 ch0" by (cases f)
      obtain el st1 where hc: "host_create (createElement ty) st = (el, st1)"
        by (cases "host_create (createElement ty) st")
      obtain op st2 where no: "new_props_object st1 = (op, st2)"
        by (cases "new_props_object st1")
      have el: "el = length (live_nodes st)"
        using hc host_create_fst[of "createElement ty" st] by (simp add: createElement_def)
      have f1: "frame_h c st st1"
        using new_live_node_frame_h(2)[of c st ty] hc by simp
      have "frame_h c st1 st2" using new_props_object_frame_h[where t=c and st=st1] no by simp
      with f1 have f2: "frame_h c st st2" by (rule frame_h_trans)
      show ?thesis
      proof (cases "node_fields st2 v")
        case None
        then have "?m = Raised TypeError st2"
          using nottext Some f hc no by simp
        then show ?thesis using f2 by simp
      next
        case (Some g)
        note nf2 = this
        obtain ty2 ps ch2 where g: "g = NodeObject ty2 ps ch2" by (cases g)
        let ?u = "updateDomAttributes_h (Some el) (Some op) ps st2"
        have ua: "objects (final_state ?u) = objects st2"
          "changes_only (Some el) (live_nodes st2) (live_nodes (final_state ?u))"
          using updateDomAttributes_h_frame[of "Some el" "Some op" ps st2] by simp_all
        have f3: "frame_h c st (final_state ?u)"
          using f2 ua by (rule frame_h_fresh_attrs) (simp add: el)
        show ?thesis
        proof (cases ?u)
          case (Raised e st3)
          then have "?m = Raised e st3"
            using nottext \<open>node_fields st v = Some f\<close> f hc no nf2 g by simp
          then show ?thesis using f3 Raised by simp
        next
          case (Done u st3)
          note upd = this
          have f3': "frame_h c st st3" using f3 upd by simp
          have other: "?m = Raised TypeError st3 \<Longrightarrow> ?thesis" using f3' by simp
          show ?thesis
          proof (cases "node_fields st3 v")
            case None
            then have "?m = Raised TypeError st3"
              using nottext \<open>node_fields st v = Some f\<close> f hc no nf2 g upd by simp
            then show ?thesis by (rule other)
          next
            case (Some h)
            note nf3 = this
            obtain ty3 ps3 ch3 where h: "h = NodeObject ty3 ps3 ch3" by (cases h)
            show ?thesis
            proof (cases ch3)
              case (ChildrenString x)
              then have "?m = Raised TypeError st3"
                using nottext \<open>node_fields st v = Some f\<close> f hc no nf2 g upd nf3 h by simp
              then show ?thesis by (rule other)
            next
              case (ChildrenArray a)
              note arr = this
              show ?thesis
              proof (cases "array_at st3 a")
                case None
                then have "?m = Raised TypeError st3"
                  using nottext \<open>node_fields st v = Some f\<close> f hc no nf2 g upd nf3 h arr by simp
                then show ?thesis by (rule other)
              next
                case (Some vs)
                let ?l = "render_forEach_h depth a 0 (length vs) el st3"
                have "frame_h (Some el) st3 (final_state ?l)"
                  by (rule render_forEach_h_frame) (rule Suc.IH)
                with f3' have f4: "frame_h c st (final_state ?l)"
                  by (rule frame_h_fresh) (simp add: el)
                show ?thesis
                proof (cases ?l)
                  case (Raised e st4)
                  then have "?m = Raised e st4"
                    using nottext \<open>node_fields st v = Some f\<close> f hc no nf2 g upd nf3 h arr Some
                    by simp
                  then show ?thesis using f4 Raised by simp
                next
                  case (Done u' st4)
                  then have m: "?m = append_to_container_h c el st4"
                    using nottext \<open>node_fields st v = Some f\<close> f hc no nf2 g upd nf3 h arr Some
                    by simp
                  have "frame_h c st st4" using f4 Done by simp
                  moreover have "frame_h c st4 (final_state (append_to_container_h c el st4))"
                    by (rule append_to_container_h_frame)
                  ultimately show ?thesis using m by (auto intro: frame_h_trans)
                qed
              qed
            qed
          qed
        qed
      qed
    qed
  qed
qed

lemma host_frame_h_final:
  assumes "changes_only t (live_nodes st) (final_dom (call (live_nodes st)))
           \<and> keeps_labels (live_nodes st) (final_dom (call (live_nodes st)))"
  shows "frame_h t st (final_state (host call st))"
  using assms by (simp add: host_frame_h)

lemma reRenderElement_h_frame:
  "frame_h parent st (final_state (reRenderElement_h depth v parent st))"
proof -
  let ?h = "host (remove_children_while parent) st"
  have a: "frame_h parent st (final_state ?h)"
    by (rule host_frame_h_final) (rule remove_children_while_frame)
  show ?thesis
  proof (cases ?h)
    case (Raised e st1)
    then show ?thesis using a by (simp add: reRenderElement_h_def)
  next
    case (Done u st1)
    let ?r = "renderVDomToDom_h depth v parent st1"
    have "frame_h parent st1 (final_state ?r)" by (rule renderVDomToDom_h_frame)
    moreover have "frame_h parent st st1" using a Done by simp
    moreover have "final_state (reRenderElement_h depth v parent st) = final_state ?r"
      using Done by (cases ?r) (simp_all add: reRenderElement_h_def)
    ultimately show ?thesis by (auto intro: frame_h_trans)
  qed
qed

lemma diffAndUpdate_h_unbound_frame:
  "frame_h parent st (final_state (diffAndUpdate_h depth None previous current parent st))"
proof (cases depth)
  case 0
  then show ?thesis by (simp add: frame_h_refl)
next
  case (Suc d)
  let ?m = "diffAndUpdate_h (Suc d) None previous current parent st"
  show ?thesis
  proof (cases "current = JNull")
    case True
    have "frame_h parent st (final_state (host (clear_innerHTML parent) st))"
      by (rule host_frame_h) (rule clear_innerHTML_frame)+
    then show ?thesis using True Suc by simp
  next
    case notnull: False
    show ?thesis
    proof (cases "isTextNode_h previous \<or> isTextNode_h current")
      case True
      show ?thesis
      proof (cases "strict_neq_h previous current")
        case False
        then show ?thesis using notnull True Suc by (simp add: frame_h_refl)
      next
        case neq: True
        obtain el st1 where hc: "host_create (createTextNode (to_string_h current)) st = (el, st1)"
          by (cases "host_create (createTextNode (to_string_h current)) st")
        have "frame_h parent st st1"
          using new_live_node_frame_h(1)[of parent st "to_string_h current"] hc by simp
        moreover have "frame_h parent st1
            (final_state (host (replace_firstChild parent (Some el)) st1))"
          by (rule host_frame_h) (rule replace_firstChild_frame)+
        ultimately show ?thesis using notnull True neq hc Suc by (auto intro: frame_h_trans)
      qed
    next
      case nottext: False
      show ?thesis
      proof (cases "node_fields st previous")
        case None
        then show ?thesis using notnull nottext Suc by (simp add: frame_h_refl)
      next
        case (Some f)
        note pf = this
        obtain pty pps pch where f: "f = NodeObject pty pps pch" by (cases f)
        show ?thesis
        proof (cases "node_fields st current")
          case None
          then show ?thesis using notnull nottext pf f Suc by (simp add: frame_h_refl)
        next
          case (Some g)
          note cf = this
          obtain cty cps cch where g: "g = NodeObject cty cps cch" by (cases g)
          show ?thesis
          proof (cases "pty = cty")
            case True
            then show ?thesis using notnull nottext pf f cf g Suc
              by (cases parent) (simp_all add: getDomElementFromVNode_h_def frame_h_refl)
          next
            case False
            let ?r = "renderVDomToDom_h d current None st"
            have a: "frame_h parent st (final_state ?r)"
              by (rule frame_h_None) (rule renderVDomToDom_h_frame)
            show ?thesis
            proof (cases ?r)
              case (Raised e st1)
              then show ?thesis using a notnull nottext pf f cf g False Suc by simp
            next
              case (Done n st1)
              have "frame_h parent st1 (final_state (host (replace_firstChild parent n) st1))"
                by (rule host_frame_h) (rule replace_firstChild_frame)+
              moreover have "frame_h parent st st1" using a Done by simp
              ultimately show ?thesis
                using Done notnull nottext pf f cf g False Suc by (auto intro: frame_h_trans)
            qed
          qed
        qed
      qed
    qed
  qed
qed

subsection \<open>The operations over the heap and the operations on values agree\<close>

text \<open>
  An object that a state holds is the same in every later state that keeps the objects, so a
  value that denotes a tree still denotes it.
\<close>

lemma kept_nth:
  assumes "take (length xs) ys = xs" and "r < length xs"
  shows "r < length ys \<and> ys ! r = xs ! r"
proof -
  have "length (take (length xs) ys) = length xs" using assms(1) by simp
  then have le: "length xs \<le> length ys" by simp
  have "take (length xs) ys ! r = ys ! r" using assms(2) by simp
  then show ?thesis using assms le by simp
qed

lemma node_fields_kept:
  "objects_kept st st' \<Longrightarrow> node_fields st v = Some f \<Longrightarrow> node_fields st' v = Some f"
  by (cases v) (auto simp: node_fields_def objects_kept_def split: if_splits dest: kept_nth)

lemma props_at_kept:
  "objects_kept st st' \<Longrightarrow> props_at st p = Some al \<Longrightarrow> props_at st' p = Some al"
  by (cases p) (auto simp: props_at_def objects_kept_def split: if_splits dest: kept_nth)

lemma array_at_kept:
  "objects_kept st st' \<Longrightarrow> array_at st a = Some vs \<Longrightarrow> array_at st' a = Some vs"
  by (auto simp: array_at_def objects_kept_def split: if_splits dest: kept_nth)

lemma encodes_props_kept:
  "objects_kept st st' \<Longrightarrow> encodes_props st pr ps \<Longrightarrow> encodes_props st' pr ps"
  by (auto simp: encodes_props_def split: option.splits dest: props_at_kept)

lemma encodes_kept:
  "encodes st jv v \<Longrightarrow> objects_kept st st' \<Longrightarrow> encodes st' jv v"
  "encodes_list st jvs vs \<Longrightarrow> objects_kept st st' \<Longrightarrow> encodes_list st' jvs vs"
proof (induction st jv v and st jvs vs rule: encodes_encodes_list.induct)
  case (5 st jv i ty ps x)
  from "5.prems"(1) obtain pr where
    nf: "node_fields st jv = Some (NodeObject ty pr (ChildrenString x))"
    and jv: "jv = JRef i" and ep: "encodes_props st pr ps"
    by (auto split: option.splits node_object.splits children_field.splits)
  show ?case
    using node_fields_kept[OF "5.prems"(2) nf] encodes_props_kept[OF "5.prems"(2) ep] jv
    by simp
next
  case (6 st jv i ty ps cs)
  from "6.prems"(1) obtain pr a vs where
    nf: "node_fields st jv = Some (NodeObject ty pr (ChildrenArray a))"
    and jv: "jv = JRef i" and ep: "encodes_props st pr ps"
    and ar: "array_at st a = Some vs" and el: "encodes_list st vs cs"
    by (auto split: option.splits node_object.splits children_field.splits)
  have "encodes_list st' vs cs" by (rule "6.IH"[OF nf refl refl ar el "6.prems"(2)])
  then show ?case
    using node_fields_kept[OF "6.prems"(2) nf] array_at_kept[OF "6.prems"(2) ar]
      encodes_props_kept[OF "6.prems"(2) ep] jv
    by simp
qed auto

text \<open>
  On a heap that holds the virtual tree, with room on the call stack, each function over the
  heap does what the function on the value does: the same result or the same error, and the
  same store of live nodes.
\<close>

lemma host_props_at [simp]: "props_at (final_state (host call st)) p = props_at st p"
  by (simp add: props_at_def host_def split: outcome.splits option.splits)

lemma agrees_host: "agrees (host call st) (call (live_nodes st))"
  by (cases "call (live_nodes st)") (simp_all add: host_def)

lemma remove_forEach_h_agrees:
  "agrees (remove_forEach_h el pn ks st) (remove_forEach el (props_at st pn) ks (live_nodes st))"
proof (induction ks arbitrary: st)
  case Nil
  show ?case by simp
next
  case (Cons k ks)
  show ?case
  proof (cases "props_at st pn")
    case None
    then show ?thesis by simp
  next
    case (Some new)
    show ?thesis
    proof (cases "js_in k new")
      case True
      then show ?thesis using Some Cons.IH[of st] by simp
    next
      case False
      let ?h = "host (removeAttribute el k) st"
      have a: "agrees ?h (removeAttribute el k (live_nodes st))" by (rule agrees_host)
      show ?thesis
      proof (cases ?h)
        case (Raised e st1)
        then show ?thesis using a Some False
          by (cases "removeAttribute el k (live_nodes st)") simp_all
      next
        case (Done u st1)
        have "props_at st1 pn = Some new"
          using host_props_at[of "removeAttribute el k" st pn] Done Some by simp
        then show ?thesis using a Some False Done Cons.IH[of st1]
          by (cases "removeAttribute el k (live_nodes st)") simp_all
      qed
    qed
  qed
qed

lemma set_forEach_h_agrees:
  "props_at st po = Some old \<Longrightarrow>
   agrees (set_forEach_h el po new st) (set_forEach el old new (live_nodes st))"
proof (induction new arbitrary: st)
  case Nil
  show ?case by simp
next
  case (Cons p new)
  obtain k v where p: "p = (k, v)" by (cases p)
  show ?case
  proof (cases "js_get old k \<noteq> JString v")
    case False
    then show ?thesis using p Cons by simp
  next
    case True
    let ?h = "host (setAttribute el k v) st"
    have a: "agrees ?h (setAttribute el k v (live_nodes st))" by (rule agrees_host)
    show ?thesis
    proof (cases ?h)
      case (Raised e st1)
      then show ?thesis using a p True Cons.prems
        by (cases "setAttribute el k v (live_nodes st)") simp_all
    next
      case (Done u st1)
      have "props_at st1 po = Some old"
        using host_props_at[of "setAttribute el k v" st po] Done Cons.prems by simp
      then show ?thesis using a p True Done Cons.prems Cons.IH[of st1]
        by (cases "setAttribute el k v (live_nodes st)") simp_all
    qed
  qed
qed

lemma remove_forEach_h_props_at:
  "props_at (final_state (remove_forEach_h el pn ks st)) p = props_at st p"
  using remove_forEach_h_frame[of el pn ks st]
  by (cases p) (simp_all add: props_at_def objects_def)

lemma updateDomAttributes_h_agrees:
  "agrees (updateDomAttributes_h el po pn st)
     (updateDomAttributes el (props_at st po) (props_at st pn) (live_nodes st))"
proof (cases "props_at st po")
  case None
  then show ?thesis by (simp add: updateDomAttributes_h_def updateDomAttributes_def)
next
  case (Some old)
  let ?r = "remove_forEach_h el pn (map fst old) st"
  let ?r' = "remove_forEach el (props_at st pn) (map fst old) (live_nodes st)"
  have a: "agrees ?r ?r'" by (rule remove_forEach_h_agrees)
  show ?thesis
  proof (cases ?r)
    case (Raised e st1)
    then show ?thesis using a Some
      by (cases ?r') (simp_all add: updateDomAttributes_h_def updateDomAttributes_def)
  next
    case (Done u st1)
    have p1: "props_at st1 pn = props_at st pn" "props_at st1 po = Some old"
      using remove_forEach_h_props_at[of el pn "map fst old" st] Done Some by simp_all
    obtain u' s1 where r': "?r' = Returned u' s1" and s1: "live_nodes st1 = s1"
      using a Done by (cases ?r') simp_all
    show ?thesis
    proof (cases "props_at st pn")
      case None
      then show ?thesis using Some Done r' s1 p1
        by (simp add: updateDomAttributes_h_def updateDomAttributes_def)
    next
      case (Some new)
      then show ?thesis
        using \<open>props_at st po = Some old\<close> Done r' s1 p1
          set_forEach_h_agrees[OF p1(2), of el new]
        by (simp add: updateDomAttributes_h_def updateDomAttributes_def)
    qed
  qed
qed

lemma encodes_props_at: "encodes_props st pr ps \<Longrightarrow> props_at st pr = ps"
  by (cases ps) (simp_all add: encodes_props_def props_at_def)

lemma encodes_list_Nil: "encodes_list st [] cs \<Longrightarrow> cs = []"
  by (cases cs) simp_all

lemma encodes_list_Cons:
  "encodes_list st (jv # jvs) cs \<Longrightarrow> \<exists>c cs'. cs = c # cs' \<and> encodes st jv c \<and> encodes_list st jvs cs'"
  by (cases cs) simp_all

lemma append_to_container_h_agrees:
  "agrees (append_to_container_h c el st) (append_to_container c el (live_nodes st))"
proof (cases c)
  case None
  then show ?thesis by (simp add: append_to_container_h_def append_to_container_def)
next
  case (Some p)
  have a: "agrees (host (appendChild p el) st) (appendChild p el (live_nodes st))"
    by (rule agrees_host)
  show ?thesis using a Some
    by (cases "host (appendChild p el) st"; cases "appendChild p el (live_nodes st)")
      (simp_all add: append_to_container_h_def append_to_container_def)
qed

lemma frame_h_kept: "frame_h t st st' \<Longrightarrow> objects_kept st st'"
  by (simp add: frame_h_def)

lemma render_forEach_h_agrees:
  assumes IH: "\<And>st jv v c. encodes st jv v \<Longrightarrow> height v < d \<Longrightarrow>
      agrees (renderVDomToDom_h d jv c st) (renderVDomToDom v c (live_nodes st))"
  shows "array_at st a = Some vs \<Longrightarrow> i + n = length vs \<Longrightarrow> encodes_list st (drop i vs) cs \<Longrightarrow>
     height_list cs \<le> d \<Longrightarrow>
     agrees (render_forEach_h d a i n el st) (render_forEach cs el (live_nodes st))"
proof (induction n arbitrary: i st cs)
  case 0
  then have "cs = []" using encodes_list_Nil[of st cs] by simp
  then show ?case by simp
next
  case (Suc n)
  have i: "i < length vs" using Suc.prems(2) by simp
  have dr: "drop i vs = vs ! i # drop (Suc i) vs" using i by (simp add: Cons_nth_drop_Suc)
  obtain c cs' where cs: "cs = c # cs'" and ec: "encodes st (vs ! i) c"
    and el: "encodes_list st (drop (Suc i) vs) cs'"
    using encodes_list_Cons[of st "vs ! i" "drop (Suc i) vs" cs] Suc.prems(3) dr by auto
  have hc: "height c < d" and hl: "height_list cs' \<le> d" using Suc.prems(4) cs by simp_all
  have ea: "element_at st a i = Some (vs ! i)" using Suc.prems(1) i by (simp add: element_at_def)
  let ?r = "renderVDomToDom_h d (vs ! i) (Some el) st"
  let ?r' = "renderVDomToDom c (Some el) (live_nodes st)"
  have a: "agrees ?r ?r'" by (rule IH[OF ec hc])
  show ?case
  proof (cases ?r)
    case (Raised e st1)
    then show ?thesis using a ea cs by (cases ?r') simp_all
  next
    case (Done u st1)
    have k: "objects_kept st st1"
      using frame_h_kept[OF renderVDomToDom_h_frame[of "Some el" st d "vs ! i"]] Done by simp
    have ar1: "array_at st1 a = Some vs" by (rule array_at_kept[OF k Suc.prems(1)])
    have el1: "encodes_list st1 (drop (Suc i) vs) cs'" by (rule encodes_kept(2)[OF el k])
    have n: "Suc i + n = length vs" using Suc.prems(2) by simp
    have b: "agrees (render_forEach_h d a (Suc i) n el st1) (render_forEach cs' el (live_nodes st1))"
      by (rule Suc.IH[OF ar1 n el1 hl])
    obtain u' s1 where r': "?r' = Returned u' s1" and s1: "live_nodes st1 = s1"
      using a Done by (cases ?r') simp_all
    show ?thesis using ea cs Done r' s1 b by simp
  qed
qed

lemma renderVDomToDom_h_agrees:
  "encodes st jv v \<Longrightarrow> height v < depth \<Longrightarrow>
   agrees (renderVDomToDom_h depth jv c st) (renderVDomToDom v c (live_nodes st))"
proof (induction depth arbitrary: st jv v c)
  case 0
  then show ?case by simp
next
  case (Suc d)
  have text_case: "agrees (renderVDomToDom_h (Suc d) jv c st)
      (case createTextNode x (live_nodes st) of (domElement, s1) \<Rightarrow> append_to_container c domElement s1)"
    if "isTextNode_h jv" and "to_string_h jv = x" for x
  proof -
    obtain el st1 where hc: "host_create (createTextNode x) st = (el, st1)"
      by (cases "host_create (createTextNode x) st")
    have "createTextNode x (live_nodes st) = (el, live_nodes st1)"
      using host_create_fst[of "createTextNode x" st] host_create_live_nodes[of "createTextNode x" st] hc
      by (simp add: prod_eq_iff)
    then show ?thesis using that hc append_to_container_h_agrees[of c el st1] by simp
  qed
  show ?case
  proof (cases v)
    case VNull
    then show ?thesis using Suc.prems by (simp add: node_fields_def)
  next
    case VUndefined
    then show ?thesis using Suc.prems by (simp add: node_fields_def)
  next
    case (VText x)
    then show ?thesis using Suc.prems text_case[of x] by simp
  next
    case (VTextObj i x)
    then show ?thesis using Suc.prems text_case[of x] by simp
  next
    case (VElem i ty ps ch)
    have jv: "jv = JRef i" using Suc.prems(1) VElem by (cases ch) simp_all
    obtain pr chf where nf: "node_fields st jv = Some (NodeObject ty pr chf)"
      and ep: "encodes_props st pr ps"
      and chf: "case ch of ChildString x \<Rightarrow> chf = ChildrenString x
                | ChildArray cs \<Rightarrow> (\<exists>a vs. chf = ChildrenArray a \<and> array_at st a = Some vs
                                     \<and> encodes_list st vs cs)"
      using Suc.prems(1) VElem
      by (cases ch) (auto split: option.splits node_object.splits children_field.splits)
    obtain el st1 where hc: "host_create (createElement ty) st = (el, st1)"
      by (cases "host_create (createElement ty) st")
    have ce: "createElement ty (live_nodes st) = (el, live_nodes st1)"
      using host_create_fst[of "createElement ty" st] host_create_live_nodes[of "createElement ty" st] hc
      by (simp add: prod_eq_iff)
    have k1: "objects_kept st st1"
      using frame_h_kept[OF new_live_node_frame_h(2)[of None st ty]] hc by simp
    obtain op st2 where np: "new_props_object st1 = (op, st2)"
      by (cases "new_props_object st1")
    have l2: "live_nodes st2 = live_nodes st1"
      using new_props_object_live_nodes[of st1] np by simp
    have k12: "objects_kept st1 st2"
      using frame_h_kept[OF new_props_object_frame_h[of None st1]] np by simp
    have k2: "objects_kept st st2" by (rule objects_kept_trans[OF k1 k12])
    have op: "props_at st2 (Some op) = Some []"
      using np by (auto simp: new_props_object_def props_at_def)
    have nf2: "node_fields st2 jv = Some (NodeObject ty pr chf)" by (rule node_fields_kept[OF k2 nf])
    have pr2: "props_at st2 pr = ps" by (rule encodes_props_at[OF encodes_props_kept[OF k2 ep]])
    let ?u = "updateDomAttributes_h (Some el) (Some op) pr st2"
    let ?u' = "updateDomAttributes (Some el) (Some []) ps (live_nodes st1)"
    have a: "agrees ?u ?u'"
      using updateDomAttributes_h_agrees[of "Some el" "Some op" pr st2] op pr2 l2 by simp
    have unfold_h: "renderVDomToDom_h (Suc d) jv c st =
        (case ?u of
           Raised e st3 \<Rightarrow> Raised e st3
         | Done u st3 \<Rightarrow>
             (case node_fields st3 jv of
                Some (NodeObject ty3 ps3 (ChildrenArray a)) \<Rightarrow>
                  (case array_at st3 a of
                     None \<Rightarrow> Raised TypeError st3
                   | Some vs \<Rightarrow>
                       (case render_forEach_h d a 0 (length vs) el st3 of
                          Raised e st4 \<Rightarrow> Raised e st4
                        | Done u' st4 \<Rightarrow> append_to_container_h c el st4))
              | _ \<Rightarrow> Raised TypeError st3))"
      using nf hc np nf2 unfolding jv by simp
    show ?thesis
    proof (cases ?u)
      case (Raised e st3)
      then obtain s3 where u': "?u' = Thrown e s3" and s3: "live_nodes st3 = s3"
        using a by (cases ?u') simp_all
      show ?thesis using unfold_h Raised u' s3 VElem ce by (cases ch) simp_all
    next
      case (Done u st3)
      then obtain u2 s3 where u': "?u' = Returned u2 s3" and s3: "live_nodes st3 = s3"
        using a by (cases ?u') simp_all
      have "objects st3 = objects st2"
        using updateDomAttributes_h_frame[of "Some el" "Some op" pr st2] Done by simp
      then have k3: "objects_kept st st3"
        using objects_kept_trans[OF k2 objects_kept_same] by simp
      have nf3: "node_fields st3 jv = Some (NodeObject ty pr chf)" by (rule node_fields_kept[OF k3 nf])
      show ?thesis
      proof (cases ch)
        case (ChildString x)
        then show ?thesis using unfold_h Done u' s3 VElem ce nf3 chf by simp
      next
        case (ChildArray cs)
        then obtain a vs where chf': "chf = ChildrenArray a" and ar: "array_at st a = Some vs"
          and el: "encodes_list st vs cs" using chf by auto
        have ar3: "array_at st3 a = Some vs" by (rule array_at_kept[OF k3 ar])
        have el3: "encodes_list st3 (drop 0 vs) cs" using encodes_kept(2)[OF el k3] by simp
        have h: "height_list cs \<le> d" using Suc.prems(2) VElem ChildArray by simp
        let ?f = "render_forEach_h d a 0 (length vs) el st3"
        let ?f' = "render_forEach cs el s3"
        have b: "agrees ?f ?f'"
          using render_forEach_h_agrees[of d st3 a vs 0 "length vs" cs el, OF Suc.IH ar3 _ el3 h] s3
          by simp
        show ?thesis
        proof (cases ?f)
          case (Raised e st4)
          then obtain s4 where f': "?f' = Thrown e s4" and s4: "live_nodes st4 = s4"
            using b by (cases ?f') simp_all
          show ?thesis using unfold_h Done u' s3 VElem ce nf3 chf' ar3 ChildArray Raised f' s4
            by simp
        next
          case (Done u4 st4)
          then obtain u5 s4 where f': "?f' = Returned u5 s4" and s4: "live_nodes st4 = s4"
            using b by (cases ?f') simp_all
          show ?thesis
            using unfold_h \<open>?u = Done u st3\<close> u' s3 VElem ce nf3 chf' ar3 ChildArray Done f' s4
              append_to_container_h_agrees[of c el st4]
            by simp
        qed
      qed
    qed
  qed
qed

lemma encodes_value:
  "encodes st jv v \<Longrightarrow>
   jv = (case v of VNull \<Rightarrow> JNull | VUndefined \<Rightarrow> JUndef | VText x \<Rightarrow> JText x
         | VTextObj i x \<Rightarrow> JTextObj i x | VElem i ty ps ch \<Rightarrow> JRef i)"
proof (cases v)
  case (VElem i ty ps ch)
  assume "encodes st jv v"
  then show ?thesis using VElem by (cases ch) simp_all
qed simp_all

lemma encodes_isTextNode: "encodes st jv v \<Longrightarrow> isTextNode_h jv = isTextNode v"
  using encodes_value[of st jv v] by (cases v) simp_all

lemma encodes_to_string: "encodes st jv v \<Longrightarrow> to_string_h jv = to_string v"
  using encodes_value[of st jv v] by (cases v) simp_all

lemma encodes_strict_eq:
  "encodes st jv v \<Longrightarrow> encodes st jw w \<Longrightarrow> strict_eq_h jv jw = strict_eq v w"
  using encodes_value[of st jv v] encodes_value[of st jw w] by (cases v; cases w) simp_all

lemma encodes_node_fields:
  "encodes st jv (VElem i ty ps ch) \<Longrightarrow> \<exists>pr chf. node_fields st jv = Some (NodeObject ty pr chf)"
  by (cases ch) (auto split: option.splits node_object.splits children_field.splits)

lemma encodes_no_fields:
  "encodes st jv v \<Longrightarrow> \<forall>i ty ps ch. v \<noteq> VElem i ty ps ch \<Longrightarrow> node_fields st jv = None"
  using encodes_value[of st jv v] by (cases v) (simp_all add: node_fields_def)

lemma host_kept: "host call st = Done u st1 \<Longrightarrow> objects_kept st st1"
  using host_objects[of call st] by (simp add: objects_kept_same)

lemma reRenderElement_h_agrees:
  assumes e: "encodes st jv v" and h: "height v < depth"
  shows "agrees (reRenderElement_h depth jv p st) (reRenderElement v p (live_nodes st))"
proof -
  let ?w = "host (remove_children_while p) st"
  let ?w' = "remove_children_while p (live_nodes st)"
  have a: "agrees ?w ?w'" by (rule agrees_host)
  show ?thesis
  proof (cases ?w)
    case (Raised e st1)
    then show ?thesis using a
      by (cases ?w') (simp_all add: reRenderElement_h_def reRenderElement_def)
  next
    case (Done u st1)
    then obtain u' s1 where w': "?w' = Returned u' s1" and s1: "live_nodes st1 = s1"
      using a by (cases ?w') simp_all
    have e1: "encodes st1 jv v" by (rule encodes_kept(1)[OF e host_kept[OF Done]])
    have b: "agrees (renderVDomToDom_h depth jv p st1) (renderVDomToDom v p s1)"
      using renderVDomToDom_h_agrees[OF e1 h, of p] s1 by simp
    show ?thesis using Done w' b
      by (cases "renderVDomToDom_h depth jv p st1"; cases "renderVDomToDom v p s1")
        (simp_all add: reRenderElement_h_def reRenderElement_def)
  qed
qed

lemma diffAndUpdate_h_unbound_agrees:
  assumes ep: "encodes st pj pv" and ec: "encodes st cj cv" and h: "height cv < d"
  shows "agrees (diffAndUpdate_h (Suc d) None pj cj parent st)
           (diffAndUpdate None pv cv parent (live_nodes st))"
proof -
  have null: "(cj = JNull) = (cv = VNull)" using encodes_value[OF ec] by (cases cv) simp_all
  have tp: "isTextNode_h pj = isTextNode pv" by (rule encodes_isTextNode[OF ep])
  have tc: "isTextNode_h cj = isTextNode cv" by (rule encodes_isTextNode[OF ec])
  have ne: "strict_neq_h pj cj = strict_neq pv cv"
    using encodes_strict_eq[OF ep ec] by (simp add: strict_neq_h_def strict_neq_def)
  have ts: "to_string_h cj = to_string cv" by (rule encodes_to_string[OF ec])
  show ?thesis
  proof (cases "cv = VNull")
    case True
    then show ?thesis using null agrees_host[of "clear_innerHTML parent" st]
      by (simp add: diffAndUpdate.simps)
  next
    case notnull: False
    show ?thesis
    proof (cases "isTextNode pv \<or> isTextNode cv")
      case True
      show ?thesis
      proof (cases "strict_neq pv cv")
        case False
        then show ?thesis using notnull null True tp tc ne by (simp add: diffAndUpdate.simps)
      next
        case neq: True
        obtain el st1 where hc: "host_create (createTextNode (to_string cv)) st = (el, st1)"
          by (cases "host_create (createTextNode (to_string cv)) st")
        have ce: "createTextNode (to_string cv) (live_nodes st) = (el, live_nodes st1)"
          using host_create_fst[of "createTextNode (to_string cv)" st]
            host_create_live_nodes[of "createTextNode (to_string cv)" st] hc
          by (simp add: prod_eq_iff)
        show ?thesis
          using notnull null True tp tc ne neq ts hc ce
            agrees_host[of "replace_firstChild parent (Some el)" st1]
          by (simp add: diffAndUpdate.simps)
      qed
    next
      case notext: False
      have unfold_v: "diffAndUpdate None pv cv parent (live_nodes st) =
          (case pv of
             VElem i ptype pprops pchildren \<Rightarrow>
               (case cv of
                  VElem j ctype cprops cchildren \<Rightarrow>
                    if ptype \<noteq> ctype
                    then (case renderVDomToDom cv None (live_nodes st) of
                            Thrown e s1 \<Rightarrow> Thrown e s1
                          | Returned newDomElement s1 \<Rightarrow>
                              replace_firstChild parent newDomElement s1)
                    else
                      (case getDomElementFromVNode pv parent (live_nodes st) of
                         Thrown e s1 \<Rightarrow> Thrown e s1
                       | Returned domElement s1 \<Rightarrow> Thrown ReferenceError s1)
                | _ \<Rightarrow> Thrown TypeError (live_nodes st))
           | _ \<Rightarrow> Thrown TypeError (live_nodes st))"
        using notnull notext
        by (cases pv; cases cv) (simp_all add: diffAndUpdate.simps split: outcome.splits)
      have unfold_h: "diffAndUpdate_h (Suc d) None pj cj parent st =
          (case node_fields st pj of
             None \<Rightarrow> Raised TypeError st
           | Some (NodeObject ptype pprops pchildren) \<Rightarrow>
               (case node_fields st cj of
                  None \<Rightarrow> Raised TypeError st
                | Some (NodeObject ctype cprops cchildren) \<Rightarrow>
                    if ptype \<noteq> ctype
                    then (case renderVDomToDom_h d cj None st of
                            Raised e st1 \<Rightarrow> Raised e st1
                          | Done newDomElement st1 \<Rightarrow>
                              host (replace_firstChild parent newDomElement) st1)
                    else
                      (case getDomElementFromVNode_h pj parent st of
                         Raised e st1 \<Rightarrow> Raised e st1
                       | Done domElement st1 \<Rightarrow> Raised ReferenceError st1)))"
        using notnull null notext tp tc
        by (simp split: option.splits node_object.splits result.splits)
      show ?thesis
      proof (cases "\<exists>i ty ps ch. pv = VElem i ty ps ch")
        case False
        then have "node_fields st pj = None" using encodes_no_fields[OF ep] by simp
        then show ?thesis using False unfold_v unfold_h by (cases pv) simp_all
      next
        case True
        then obtain i pty pps pch where pv: "pv = VElem i pty pps pch" by auto
        obtain ppr pchf where nfp: "node_fields st pj = Some (NodeObject pty ppr pchf)"
          using encodes_node_fields[of st pj i pty pps pch] ep pv by auto
        show ?thesis
        proof (cases "\<exists>j ty ps ch. cv = VElem j ty ps ch")
          case False
          then have "node_fields st cj = None" using encodes_no_fields[OF ec] by simp
          then show ?thesis using False unfold_v unfold_h pv nfp by (cases cv) simp_all
        next
          case True
          then obtain j cty cps cch where cv: "cv = VElem j cty cps cch" by auto
          obtain cpr cchf where nfc: "node_fields st cj = Some (NodeObject cty cpr cchf)"
            using encodes_node_fields[of st cj j cty cps cch] ec cv by auto
          show ?thesis
          proof (cases "pty = cty")
            case True
            then show ?thesis
              unfolding unfold_v unfold_h
              using pv cv nfp nfc
              by (cases parent) (simp_all add: getDomElementFromVNode_h_def getDomElementFromVNode_def)
          next
            case False
            let ?r = "renderVDomToDom_h d cj None st"
            let ?r' = "renderVDomToDom cv None (live_nodes st)"
            have a: "agrees ?r ?r'" by (rule renderVDomToDom_h_agrees[OF ec h])
            have uv: "diffAndUpdate None pv cv parent (live_nodes st) =
                (case ?r' of Thrown e s1 \<Rightarrow> Thrown e s1
                 | Returned newDomElement s1 \<Rightarrow> replace_firstChild parent newDomElement s1)"
              unfolding unfold_v using pv cv False by simp
            have uh: "diffAndUpdate_h (Suc d) None pj cj parent st =
                (case ?r of Raised e st1 \<Rightarrow> Raised e st1
                 | Done newDomElement st1 \<Rightarrow> host (replace_firstChild parent newDomElement) st1)"
              unfolding unfold_h using nfp nfc False by simp
            show ?thesis
            proof (cases ?r)
              case (Raised e st1)
              then show ?thesis unfolding uv uh using a by (cases ?r') simp_all
            next
              case (Done n st1)
              then obtain s1 where r': "?r' = Returned n s1" and s1: "live_nodes st1 = s1"
                using a by (cases ?r') simp_all
              show ?thesis unfolding uv uh
                using Done r' s1 agrees_host[of "replace_firstChild parent n" st1] by simp
            qed
          qed
        qed
      qed
    qed
  qed
qed

lemma encodes_example:
  "encodes \<lparr>node_objects = [NodeObject ''p'' (Some 0) (ChildrenArray 0)],
             props_objects = [[(''id'', ''a'')]], array_objects = [[JText ''hi'']],
             live_nodes = s\<rparr>
     (JRef 0) (VElem 0 ''p'' (Some [(''id'', ''a'')]) (ChildArray [VText ''hi'']))"
  by (simp add: node_fields_def props_at_def array_at_def encodes_props_def)

text \<open>
  The store of live nodes after the operations on a virtual tree given as a value, whether the
  call returns or throws: mount, re-render and diff-and-patch with \<^verbatim>\<open>updateAttributes\<close>
  unbound change no node that existed but the container, and no node's tag name or
  attributes; diff-and-patch with \<^verbatim>\<open>updateAttributes\<close> bound to \<^verbatim>\<open>updateDomAttributes\<close> changes
  no node that existed other than the container and its descendants.
\<close>

lemma value_operations_frame:
  "changes_only container s (final_dom (renderVDomToDom v container s))
   \<and> keeps_labels s (final_dom (renderVDomToDom v container s))
   \<and> changes_only container s (final_dom (reRenderElement v container s))
   \<and> keeps_labels s (final_dom (reRenderElement v container s))
   \<and> changes_only container s (final_dom (diffAndUpdate None previous current container s))
   \<and> keeps_labels s (final_dom (diffAndUpdate None previous current container s))
   \<and> within_subtree container s
        (final_dom (diffAndUpdate (Some updateDomAttributes) previous current container s))"
  using render_frame(1)[of container s v] reRenderElement_frame[of container s v]
    diffAndUpdate_unbound_frame[of container s previous current]
    diff_frame(1)[of "Some updateDomAttributes" container s previous current]
  by simp

text \<open>
  The attribute diff on \<^verbatim>\<open>old = {a:"1", b:"2"}\<close> and \<^verbatim>\<open>new = {b:"2", c:"3"}\<close>, for an element
  that has the old attributes: \<^verbatim>\<open>a\<close> is removed, \<^verbatim>\<open>b\<close> stays, \<^verbatim>\<open>c\<close> is added.
\<close>

lemma attribute_diff_example:
  "updateDomAttributes (Some 0) (Some [(''a'', ''1''), (''b'', ''2'')]) (Some [(''b'', ''2''), (''c'', ''3'')])
     [Element ''div'' [(''a'', ''1''), (''b'', ''2'')] []]
   = Returned () [Element ''div'' [(''b'', ''2''), (''c'', ''3'')] []]"
  by (simp add: updateDomAttributes_def js_in_def js_get_def object_prototype_keys_def
      removeAttribute_def setAttribute_def node_at_def AList.delete_eq)

section \<open>Claims about mounting\<close>

text \<open>
  C1. Mounting a well-formed virtual tree \<open>v\<close> of \<open>N = node_count v\<close> nodes into a container
  that is a live element returns, and creates exactly \<open>N\<close> live nodes: the store grows by \<open>N\<close>
  nodes, the root of the new subtree (the first new address) becomes the last child of the
  container, whose tag name, attributes and earlier children stay, no other existing node
  changes, and the new subtree consists of new nodes only and has the shape \<open>live_of v\<close> of
  \<open>N\<close> nodes: node for node the tag name, the text value and the attributes of the virtual
  node, with the children in the order of the virtual tree.
\<close>

theorem mount_appends_matching_subtree:
  assumes "well_formed v" and "c < length s" and "s ! c = Element tag as cs"
  shows "\<exists>s'. renderVDomToDom v (Some c) s = Returned None s'
      \<and> length s' = length s + node_count v
      \<and> live_size (live_of v) = node_count v
      \<and> s' ! c = Element tag as (cs @ [length s])
      \<and> (\<forall>i<length s. i \<noteq> c \<longrightarrow> s' ! i = s ! i)
      \<and> represents_from (length s) s' (length s) (live_of v)"
proof -
  have "\<exists>s'. renderVDomToDom v (Some c) s = Returned None s'
        \<and> length s' = length s + node_count v
        \<and> (\<forall>i<length s. Some i \<noteq> Some c \<longrightarrow> s' ! i = s ! i)
        \<and> (\<forall>c'. Some c = Some c' \<longrightarrow> s' ! c' = Element tag as (cs @ [length s]))
        \<and> represents_from (length s) s' (length s) (live_of v)"
    by (rule render_correct(1)[OF assms(1)]) (use assms in auto)
  then show ?thesis
    using live_size_live_of(1)[OF assms(1)] by auto
qed

theorem mount_appends_matching_subtree_witness:
  "well_formed (VElem 1 ''div'' (Some [(''id'', ''a'')]) (ChildArray [VText ''hi'']))
   \<and> (0::nat) < length [Element ''body'' [] []]
   \<and> [Element ''body'' [] []] ! 0 = Element ''body'' [] []
   \<and> (\<exists>s'. renderVDomToDom (VElem 1 ''div'' (Some [(''id'', ''a'')]) (ChildArray [VText ''hi'']))
              (Some 0) [Element ''body'' [] []] = Returned None s'
      \<and> length s' = length [Element ''body'' [] []]
           + node_count (VElem 1 ''div'' (Some [(''id'', ''a'')]) (ChildArray [VText ''hi'']))
      \<and> live_size (live_of (VElem 1 ''div'' (Some [(''id'', ''a'')]) (ChildArray [VText ''hi''])))
           = node_count (VElem 1 ''div'' (Some [(''id'', ''a'')]) (ChildArray [VText ''hi'']))
      \<and> s' ! 0 = Element ''body'' [] ([] @ [length [Element ''body'' [] []]])
      \<and> (\<forall>i<length [Element ''body'' [] []]. i \<noteq> 0 \<longrightarrow> s' ! i = [Element ''body'' [] []] ! i)
      \<and> represents_from (length [Element ''body'' [] []]) s' (length [Element ''body'' [] []])
           (live_of (VElem 1 ''div'' (Some [(''id'', ''a'')]) (ChildArray [VText ''hi'']))))"
  using mount_appends_matching_subtree
    [of "VElem 1 ''div'' (Some [(''id'', ''a'')]) (ChildArray [VText ''hi''])"
        0 "[Element ''body'' [] []]" "''body''" "[]" "[]"]
  by simp

text \<open>
  C10. Mounting a well-formed virtual tree \<open>v\<close> with an absent container (\<^verbatim>\<open>null\<close> or
  \<^verbatim>\<open>undefined\<close>: \<open>None\<close>) returns without an error, and the value of the call is
  \<^verbatim>\<open>undefined\<close>. The subtree is built all the same: the new store is the old one followed by
  \<open>node_count v\<close> new nodes, and the first of them is the root of a subtree of shape \<open>live_of v\<close>.
  Every node that existed keeps its value, so nothing is appended to any of them and the
  caller has no reference to the new subtree.
\<close>

theorem mount_without_container:
  assumes "well_formed v"
  shows "\<exists>s'. renderVDomToDom v None s = Returned None s'
      \<and> take (length s) s' = s
      \<and> length s' = length s + node_count v
      \<and> represents_from (length s) s' (length s) (live_of v)"
proof -
  have "\<exists>s'. renderVDomToDom v None s = Returned None s'
        \<and> length s' = length s + node_count v
        \<and> (\<forall>i<length s. Some i \<noteq> None \<longrightarrow> s' ! i = s ! i)
        \<and> (\<forall>c'. None = Some c' \<longrightarrow> s' ! c' = Element [] [] ([] @ [length s]))
        \<and> represents_from (length s) s' (length s) (live_of v)"
    by (rule render_correct(1)[OF assms]) simp
  then obtain s' where r: "renderVDomToDom v None s = Returned None s'"
    and len: "length s' = length s + node_count v"
    and frame: "\<forall>i<length s. s' ! i = s ! i"
    and rep: "represents_from (length s) s' (length s) (live_of v)"
    by auto
  have "take (length s) s' = s"
    using len frame by (intro nth_equalityI) auto
  then show ?thesis using r len rep by simp
qed

theorem mount_without_container_witness:
  "well_formed (VElem 1 ''div'' (Some [(''id'', ''a'')]) (ChildArray [VText ''hi'']))
   \<and> (\<exists>s'. renderVDomToDom (VElem 1 ''div'' (Some [(''id'', ''a'')]) (ChildArray [VText ''hi'']))
              None [Element ''body'' [] []] = Returned None s'
      \<and> take (length [Element ''body'' [] []]) s' = [Element ''body'' [] []]
      \<and> length s' = length [Element ''body'' [] []]
           + node_count (VElem 1 ''div'' (Some [(''id'', ''a'')]) (ChildArray [VText ''hi'']))
      \<and> represents_from (length [Element ''body'' [] []]) s' (length [Element ''body'' [] []])
           (live_of (VElem 1 ''div'' (Some [(''id'', ''a'')]) (ChildArray [VText ''hi'']))))"
  using mount_without_container
    [of "VElem 1 ''div'' (Some [(''id'', ''a'')]) (ChildArray [VText ''hi''])" "[Element ''body'' [] []]"]
  by simp

section \<open>Claims about re-rendering\<close>

text \<open>
  C7. Re-rendering is idempotent on the content of the container. For a well-formed virtual
  tree \<open>v\<close> and a container \<open>c\<close> that is a live element, a call of \<^verbatim>\<open>reRenderElement\<close>
  returns, and so does a second call with the same tree on the store the first one leaves;
  after the first call and after the second the container has one and the same shape: its
  own tag name and attributes, and a single child of shape \<open>live_of v\<close>. A store gives a node
  at most one shape, so the two shapes are equal.
\<close>

theorem rerender_twice_same_shape:
  assumes "well_formed v" and "c < length s" and "s ! c = Element tag as cs"
  shows "\<exists>s1 s2. reRenderElement v (Some c) s = Returned () s1
      \<and> reRenderElement v (Some c) s1 = Returned () s2
      \<and> represents s1 c (LElem tag as [live_of v])
      \<and> represents s2 c (LElem tag as [live_of v])
      \<and> (\<forall>t. represents s1 c t \<longrightarrow> t = LElem tag as [live_of v])
      \<and> (\<forall>t. represents s2 c t \<longrightarrow> t = LElem tag as [live_of v])"
proof -
  obtain s1 where r1: "reRenderElement v (Some c) s = Returned () s1"
    and len1: "length s1 = length s + node_count v"
    and c1: "s1 ! c = Element tag as [length s]"
    and rep1: "represents s1 c (LElem tag as [live_of v])"
    using reRender_correct[OF assms] by blast
  have "c < length s1" using assms(2) len1 by simp
  then obtain s2 where r2: "reRenderElement v (Some c) s1 = Returned () s2"
    and rep2: "represents s2 c (LElem tag as [live_of v])"
    using reRender_correct[OF assms(1) _ c1] by blast
  have "\<forall>t. represents s1 c t \<longrightarrow> t = LElem tag as [live_of v]"
    using rep1 represents_from_unique(1) unfolding represents_def by blast
  moreover have "\<forall>t. represents s2 c t \<longrightarrow> t = LElem tag as [live_of v]"
    using rep2 represents_from_unique(1) unfolding represents_def by blast
  ultimately show ?thesis using r1 r2 rep1 rep2 by blast
qed

theorem rerender_twice_same_shape_witness:
  "well_formed (VElem 1 ''p'' (Some [(''id'', ''a'')]) (ChildArray [VText ''hi'']))
   \<and> (0::nat) < length [Element ''body'' [] [1], Text ''old'']
   \<and> [Element ''body'' [] [1], Text ''old''] ! 0 = Element ''body'' [] [1]
   \<and> (\<exists>s1 s2. reRenderElement (VElem 1 ''p'' (Some [(''id'', ''a'')]) (ChildArray [VText ''hi'']))
                  (Some 0) [Element ''body'' [] [1], Text ''old''] = Returned () s1
      \<and> reRenderElement (VElem 1 ''p'' (Some [(''id'', ''a'')]) (ChildArray [VText ''hi'']))
                  (Some 0) s1 = Returned () s2
      \<and> represents s1 0
           (LElem ''body'' [] [live_of (VElem 1 ''p'' (Some [(''id'', ''a'')]) (ChildArray [VText ''hi'']))])
      \<and> represents s2 0
           (LElem ''body'' [] [live_of (VElem 1 ''p'' (Some [(''id'', ''a'')]) (ChildArray [VText ''hi'']))])
      \<and> (\<forall>t. represents s1 0 t \<longrightarrow>
            t = LElem ''body'' [] [live_of (VElem 1 ''p'' (Some [(''id'', ''a'')]) (ChildArray [VText ''hi'']))])
      \<and> (\<forall>t. represents s2 0 t \<longrightarrow>
            t = LElem ''body'' [] [live_of (VElem 1 ''p'' (Some [(''id'', ''a'')]) (ChildArray [VText ''hi'']))]))"
  using rerender_twice_same_shape
    [of "VElem 1 ''p'' (Some [(''id'', ''a'')]) (ChildArray [VText ''hi''])"
        0 "[Element ''body'' [] [1], Text ''old'']" "''body''" "[]" "[1]"]
  by simp

section \<open>Claims about the node constructor\<close>

text \<open>
  C8, as the code has it. \<^verbatim>\<open>createVDomNode\<close> is a pure constructor without defaults: the
  fields \<open>type\<close>, \<open>props\<close> and \<open>children\<close> of the node it returns are the arguments it was
  given, whatever they are. An absent \<open>props\<close> argument is stored as it is, absent
  (\<^verbatim>\<open>undefined\<close>), and not as an empty mapping.
\<close>

theorem createVDomNode_fields:
  "oid (createVDomNode i ty ps ch) = i
   \<and> type (createVDomNode i ty ps ch) = ty
   \<and> props (createVDomNode i ty ps ch) = ps
   \<and> children (createVDomNode i ty ps ch) = ch
   \<and> props (createVDomNode i ty None ch) = None"
  by (simp add: createVDomNode_def)

text \<open>
  C8, as it is stated, fails: the node built with an absent \<open>props\<close> argument does not have
  the empty mapping as its attribute mapping.
\<close>

theorem createVDomNode_absent_props_counterexample:
  "props (createVDomNode 1 ''div'' None (ChildArray [])) \<noteq> Some []"
  by (simp add: createVDomNode_def)

section \<open>Claims about diff and patch\<close>

text \<open>
  C6. With \<open>current = null\<close>, \<^verbatim>\<open>diffAndUpdate\<close> returns and leaves the store in which the
  container, a live element, has lost all its children and nothing else has changed, whatever
  the previous virtual node is, whatever the container held, and whatever the environment
  binds \<^verbatim>\<open>updateAttributes\<close> to.
\<close>

theorem diff_null_clears_container:
  assumes "c < length s" and "s ! c = Element tag as cs"
  shows "diffAndUpdate updateAttributes previousVNode VNull (Some c) s
           = Returned () (s[c := Element tag as []])"
  using assms by (simp add: diffAndUpdate.simps clear_innerHTML_def node_at_def)

theorem diff_null_clears_container_witness:
  "(0::nat) < length [Element ''body'' [(''id'', ''root'')] [1, 2], Text ''a'', Element ''p'' [] []]
   \<and> [Element ''body'' [(''id'', ''root'')] [1, 2], Text ''a'', Element ''p'' [] []] ! 0
        = Element ''body'' [(''id'', ''root'')] [1, 2]
   \<and> diffAndUpdate None (VText ''a'') VNull (Some 0)
        [Element ''body'' [(''id'', ''root'')] [1, 2], Text ''a'', Element ''p'' [] []]
      = Returned ()
        ([Element ''body'' [(''id'', ''root'')] [1, 2], Text ''a'', Element ''p'' [] []]
          [0 := Element ''body'' [(''id'', ''root'')] []])"
  using diff_null_clears_container
    [of 0 "[Element ''body'' [(''id'', ''root'')] [1, 2], Text ''a'', Element ''p'' [] []]"
        "''body''" "[(''id'', ''root'')]" "[1, 2]" None "VText ''a''"]
  by simp

text \<open>
  C4. For plain text values \<open>previous = a\<close> and \<open>current = b\<close> and a container that is a
  live element with a single child \<open>t\<close> (the text node mounted for \<open>previous\<close>),
  \<^verbatim>\<open>diffAndUpdate\<close> returns. When \<open>a\<close> and \<open>b\<close> differ, a text node of value \<open>b\<close> is created
  at a new address and takes the place of \<open>t\<close> as the single child of the container. When they
  are equal, the store is left as it is: the child of the container is the same live node
  \<open>t\<close>, with the same value.
\<close>

theorem diff_text_replaces_or_keeps:
  assumes "c < length s" and "s ! c = Element tag as [t]"
  shows "diffAndUpdate updateAttributes (VText a) (VText b) (Some c) s =
           (if a = b then Returned () s
            else Returned () ((s @ [Text b])[c := Element tag as [length s]]))"
  using assms
  by (simp add: diffAndUpdate.simps strict_neq_def createTextNode_def replace_firstChild_def
      replaceChild_def firstChild_def node_at_def nth_append)

theorem diff_text_replaces_or_keeps_witness:
  "(0::nat) < length [Element ''div'' [] [1], Text ''hello'']
   \<and> [Element ''div'' [] [1], Text ''hello''] ! 0 = Element ''div'' [] [1]
   \<and> diffAndUpdate None (VText ''hello'') (VText ''world'') (Some 0)
        [Element ''div'' [] [1], Text ''hello'']
      = Returned () [Element ''div'' [] [2], Text ''hello'', Text ''world'']
   \<and> (0::nat) < length [Element ''div'' [] [1], Text ''same'']
   \<and> [Element ''div'' [] [1], Text ''same''] ! 0 = Element ''div'' [] [1]
   \<and> diffAndUpdate None (VText ''same'') (VText ''same'') (Some 0)
        [Element ''div'' [] [1], Text ''same'']
      = Returned () [Element ''div'' [] [1], Text ''same'']"
  using diff_text_replaces_or_keeps
    [of 0 "[Element ''div'' [] [1], Text ''hello'']" "''div''" "[]" 1 None "''hello''" "''world''"]
    diff_text_replaces_or_keeps
    [of 0 "[Element ''div'' [] [1], Text ''same'']" "''div''" "[]" 1 None "''same''" "''same''"]
  by simp

text \<open>
  C3 does not hold of the code. With \<open>previous\<close> an element \<^verbatim>\<open>div\<close> carrying an attribute,
  mounted as the single child of the container, and \<open>current\<close> an element \<^verbatim>\<open>span\<close>,
  \<^verbatim>\<open>diffAndUpdate\<close> builds the \<^verbatim>\<open>span\<close> by \<^verbatim>\<open>renderVDomToDom(currentVNode)\<close>, takes the value
  of that call, which is \<^verbatim>\<open>undefined\<close>, for the new live node, and \<^verbatim>\<open>replaceChild\<close> throws a
  \<^verbatim>\<open>TypeError\<close> on it. The container keeps the \<^verbatim>\<open>div\<close> with its attribute as its child; the
  \<^verbatim>\<open>span\<close> is in the store, attached nowhere.
\<close>

theorem diff_tag_change_throws:
  "diffAndUpdate None
     (VElem 1 ''div'' (Some [(''class'', ''box'')]) (ChildArray []))
     (VElem 2 ''span'' (Some []) (ChildArray []))
     (Some 0)
     [Element ''body'' [] [1], Element ''div'' [(''class'', ''box'')] []]
   = Thrown TypeError
     [Element ''body'' [] [1], Element ''div'' [(''class'', ''box'')] [], Element ''span'' [] []]"
  by (simp add: diffAndUpdate.simps createElement_def updateDomAttributes_def
      append_to_container_def replace_firstChild_def replaceChild_def firstChild_def node_at_def)

text \<open>
  An example of the branch for two elements of the same tag. \<open>previous\<close> is a \<^verbatim>\<open>div\<close> with
  the children \<^verbatim>\<open>"a"\<close>, \<^verbatim>\<open>"b"\<close>, mounted as the single child of the container, and \<open>current\<close>
  is a \<^verbatim>\<open>div\<close> with the children \<^verbatim>\<open>"a"\<close>, \<^verbatim>\<open>"c"\<close>. In the module as it stands
  \<^verbatim>\<open>updateAttributes\<close> is unbound, the call throws a \<^verbatim>\<open>ReferenceError\<close> before the loop over
  the children and the store is left as it was. In an environment that binds the identifier
  to \<^verbatim>\<open>updateDomAttributes\<close>, the recursion for index 1 replaces the first child of the
  \<^verbatim>\<open>div\<close>, as \<^verbatim>\<open>getDomElementFromVNode\<close> and \<^verbatim>\<open>replaceChild\<close> take the first child
  whatever the index.
\<close>

lemma diff_same_tag_example:
  "diffAndUpdate None
     (VElem 1 ''div'' (Some []) (ChildArray [VText ''a'', VText ''b'']))
     (VElem 2 ''div'' (Some []) (ChildArray [VText ''a'', VText ''c'']))
     (Some 0)
     [Element ''body'' [] [1], Element ''div'' [] [2, 3], Text ''a'', Text ''b'']
   = Thrown ReferenceError
     [Element ''body'' [] [1], Element ''div'' [] [2, 3], Text ''a'', Text ''b'']
  \<and> diffAndUpdate (Some updateDomAttributes)
     (VElem 1 ''div'' (Some []) (ChildArray [VText ''a'', VText ''b'']))
     (VElem 2 ''div'' (Some []) (ChildArray [VText ''a'', VText ''c'']))
     (Some 0)
     [Element ''body'' [] [1], Element ''div'' [] [2, 3], Text ''a'', Text ''b'']
   = Returned ()
     [Element ''body'' [] [1], Element ''div'' [] [4, 3], Text ''a'', Text ''b'', Text ''c'']"
  by (simp add: diffAndUpdate.simps getDomElementFromVNode_def updateDomAttributes_def
      strict_neq_def createTextNode_def
      replace_firstChild_def replaceChild_def firstChild_def node_at_def)

text \<open>
  C5. In the module as it stands, for every pair of element virtual nodes \<open>previous\<close> and
  \<open>current\<close> of the same tag, whatever their attributes and children, every container and
  every store, \<^verbatim>\<open>diffAndUpdate\<close> reaches the call of \<^verbatim>\<open>updateAttributes\<close>, which is unbound,
  before the loop over the children of \<open>current\<close>: it makes no recursive call at any index and
  throws, and the store it leaves is the store it was given. So the live subtree at every
  index whose child is identical is left unchanged, as is every other live node, and no live
  child at an index beyond the children of \<open>current\<close> is visited or removed. (The error is a
  \<^verbatim>\<open>ReferenceError\<close>, or the \<^verbatim>\<open>TypeError\<close> of reading \<^verbatim>\<open>firstChild\<close> of \<^verbatim>\<open>null\<close> when there
  is no container.)
\<close>

theorem diff_same_tag_leaves_store:
  "diffAndUpdate None (VElem i ty ps ch) (VElem j ty ps' ch') parent s
     = Thrown (case parent of None \<Rightarrow> TypeError | Some p \<Rightarrow> ReferenceError) s"
  by (cases parent) (simp_all add: diffAndUpdate.simps getDomElementFromVNode_def)

section \<open>Claims about the attribute diff\<close>

text \<open>
  C2 does not hold of the code. The element has the attribute \<^verbatim>\<open>toString="1"\<close>, \<open>oldProps\<close> is
  \<^verbatim>\<open>{ toString: "1" }\<close> and \<open>newProps\<close> is \<^verbatim>\<open>{}\<close>: the name is present in the old mapping and
  absent from the new one. \<^verbatim>\<open>"toString" in newProps\<close> is true all the same, by the property
  that \<^verbatim>\<open>{}\<close> inherits from \<^verbatim>\<open>Object.prototype\<close>, so \<^verbatim>\<open>updateDomAttributes\<close> does not
  remove the attribute: the element ends with \<^verbatim>\<open>toString="1"\<close>, not with the empty attribute
  set of \<open>newProps\<close>.
\<close>

theorem attribute_diff_keeps_inherited_name:
  "updateDomAttributes (Some 0) (Some [(''toString'', ''1'')]) (Some [])
     [Element ''div'' [(''toString'', ''1'')] []]
   = Returned () [Element ''div'' [(''toString'', ''1'')] []]"
  by (simp add: updateDomAttributes_def js_in_def object_prototype_keys_def)

section \<open>Claims about what the operations leave unchanged\<close>

text \<open>
  C9. With the virtual trees in a heap, for every heap and every store of live nodes, every
  value given as the virtual node (or as \<open>previous\<close> and \<open>current\<close>), every container and every
  room on the call stack, and whether the call returns or throws: after mount, after re-render
  and after diff-and-patch (the module as it stands, with \<^verbatim>\<open>updateAttributes\<close> unbound), every
  node object that the heap held has the \<open>type\<close>, \<open>props\<close> and \<open>children\<close> fields it had,
  every props object has the properties it had and every array of children has the entries
  it had; the functions only add objects. In the store of live nodes, every node that existed
  is at its address and unchanged, except the container, of which only the list of children
  changes: the container keeps its tag name and its attributes, as every other node keeps its
  own. All other changes are new live nodes.
\<close>

theorem reconciler_leaves_virtual_tree:
  "objects_kept st (final_state (renderVDomToDom_h depth v container st))
   \<and> changes_only container (live_nodes st)
        (live_nodes (final_state (renderVDomToDom_h depth v container st)))
   \<and> keeps_labels (live_nodes st)
        (live_nodes (final_state (renderVDomToDom_h depth v container st)))
   \<and> objects_kept st (final_state (reRenderElement_h depth v container st))
   \<and> changes_only container (live_nodes st)
        (live_nodes (final_state (reRenderElement_h depth v container st)))
   \<and> keeps_labels (live_nodes st)
        (live_nodes (final_state (reRenderElement_h depth v container st)))
   \<and> objects_kept st (final_state (diffAndUpdate_h depth None previous current container st))
   \<and> changes_only container (live_nodes st)
        (live_nodes (final_state (diffAndUpdate_h depth None previous current container st)))
   \<and> keeps_labels (live_nodes st)
        (live_nodes (final_state (diffAndUpdate_h depth None previous current container st)))"
  using renderVDomToDom_h_frame[of container st depth v]
    reRenderElement_h_frame[of container st depth v]
    diffAndUpdate_h_unbound_frame[of container st depth previous current]
  by (simp add: frame_h_def)

theorem reconciler_leaves_virtual_tree_witness:
  "renderVDomToDom_h 3 (JRef 0) (Some 0)
     \<lparr>node_objects = [NodeObject ''p'' (Some 0) (ChildrenArray 0)],
      props_objects = [[(''id'', ''a'')]],
      array_objects = [[JText ''hi'']],
      live_nodes = [Element ''body'' [(''id'', ''root'')] [1], Text ''old'', Element ''aside'' [] []]\<rparr>
   = Done None
     \<lparr>node_objects = [NodeObject ''p'' (Some 0) (ChildrenArray 0)],
      props_objects = [[(''id'', ''a'')], []],
      array_objects = [[JText ''hi'']],
      live_nodes = [Element ''body'' [(''id'', ''root'')] [1, 3], Text ''old'', Element ''aside'' [] [],
                    Element ''p'' [(''id'', ''a'')] [4], Text ''hi'']\<rparr>
   \<and> reRenderElement_h 3 (JRef 0) (Some 0)
     \<lparr>node_objects = [NodeObject ''p'' (Some 0) (ChildrenArray 0)],
      props_objects = [[(''id'', ''a'')]],
      array_objects = [[JText ''hi'']],
      live_nodes = [Element ''body'' [(''id'', ''root'')] [1], Text ''old'', Element ''aside'' [] []]\<rparr>
   = Done ()
     \<lparr>node_objects = [NodeObject ''p'' (Some 0) (ChildrenArray 0)],
      props_objects = [[(''id'', ''a'')], []],
      array_objects = [[JText ''hi'']],
      live_nodes = [Element ''body'' [(''id'', ''root'')] [3], Text ''old'', Element ''aside'' [] [],
                    Element ''p'' [(''id'', ''a'')] [4], Text ''hi'']\<rparr>
   \<and> diffAndUpdate_h 3 None (JText ''old'') (JText ''new'') (Some 0)
     \<lparr>node_objects = [NodeObject ''p'' (Some 0) (ChildrenArray 0)],
      props_objects = [[(''id'', ''a'')]],
      array_objects = [[JText ''hi'']],
      live_nodes = [Element ''body'' [(''id'', ''root'')] [1], Text ''old'', Element ''aside'' [] []]\<rparr>
   = Done ()
     \<lparr>node_objects = [NodeObject ''p'' (Some 0) (ChildrenArray 0)],
      props_objects = [[(''id'', ''a'')]],
      array_objects = [[JText ''hi'']],
      live_nodes = [Element ''body'' [(''id'', ''root'')] [3], Text ''old'', Element ''aside'' [] [],
                    Text ''new'']\<rparr>"
  using reconciler_leaves_virtual_tree
    [where st="\<lparr>node_objects = [NodeObject ''p'' (Some 0) (ChildrenArray 0)],
      props_objects = [[(''id'', ''a'')]],
      array_objects = [[JText ''hi'']],
      live_nodes = [Element ''body'' [(''id'', ''root'')] [1], Text ''old'', Element ''aside'' [] []]\<rparr>"
      and depth=3 and v="JRef 0" and container="Some 0"
      and previous="JText ''old''" and current="JText ''new''"]
  by (simp add: numeral_3_eq_3 node_fields_def props_at_def array_at_def element_at_def
      host_def host_create_def new_props_object_def createElement_def createTextNode_def
      updateDomAttributes_h_def append_to_container_h_def appendChild_def node_at_def
      js_get_def object_prototype_keys_def setAttribute_def
      reRenderElement_h_def remove_children_while.simps firstChild_def removeChild_def
      strict_neq_h_def replace_firstChild_def replaceChild_def)

end
